theory Spec2Isabelle
  imports Main "HOL-Library.Word"
begin

unbundle bit_operations_syntax

section \<open>Data model of \<^verbatim>\<open>include/log.h\<close>\<close>

text \<open>
  \<^verbatim>\<open>BOOLEAN\<close>, \<^verbatim>\<open>TRUE\<close> and \<^verbatim>\<open>FALSE\<close> come from \<^verbatim>\<open>ntdatatypes.h\<close>; the header uses them
  only as a success indicator.
\<close>

type_synonym BOOLEAN = bool

abbreviation (input) TRUE :: BOOLEAN where "TRUE \<equiv> True"
abbreviation (input) FALSE :: BOOLEAN where "FALSE \<equiv> False"

text \<open>
  A pointer is the thing it points to, or \<open>None\<close> for \<^verbatim>\<open>NULL\<close>. The opaque
  \<^verbatim>\<open>PVOID\<close> context is an address that the header never dereferences.
\<close>

type_synonym PVOID = "nat option"

text \<open>
  The variable arguments of a call, as the values handed over in the \<^verbatim>\<open>__VA_LIST__\<close>:
  the header itself passes a string (\<^verbatim>\<open>__FILE__\<close>) and an integer (\<^verbatim>\<open>__LINE__\<close>).
\<close>

datatype va_value = VA_Str string | VA_Int int

text \<open>
  \<^verbatim>\<open>LOG_WRITE_PFN\<close>: the user's sink. It receives the context, the format string and the
  argument list, may change the world \<open>'w\<close> outside the handle (screen, serial port, its own
  counters) and reports success. The handle itself is not part of \<open>'w\<close>: a sink is external
  code that does not write to the handle it is called through.
\<close>

type_synonym 'w LOG_WRITE_PFN = "PVOID \<Rightarrow> string \<Rightarrow> va_value list \<Rightarrow> 'w \<Rightarrow> BOOLEAN \<times> 'w"

type_synonym LOG_PRIORITY = "32 word"
type_synonym LOG_MODULE = "32 word"

text \<open>
  Modelled from the spec: \<^verbatim>\<open>UINT32_MAX\<close> is declared in \<^verbatim>\<open>ntdatatypes.h\<close>, which is not among
  the sources. The spec calls the sentinel built from it "equal to the full bit range" of the
  32-bit masks.
\<close>

definition UINT32_MAX :: "32 word" where
  "UINT32_MAX = 0xFFFFFFFF"

definition LOG_PRIORITY_ERROR :: LOG_PRIORITY where
  "LOG_PRIORITY_ERROR = push_bit 0 1"

definition LOG_PRIORITY_WARN :: LOG_PRIORITY where
  "LOG_PRIORITY_WARN = push_bit 1 1"

definition LOG_PRIORITY_INFO :: LOG_PRIORITY where
  "LOG_PRIORITY_INFO = push_bit 2 1"

definition LOG_PRIORITY_DEBUG :: LOG_PRIORITY where
  "LOG_PRIORITY_DEBUG = push_bit 3 1"

definition LOG_PRIORITY_TRACE :: LOG_PRIORITY where
  "LOG_PRIORITY_TRACE = push_bit 4 1"

definition LOG_PRIORITY_ALL :: LOG_PRIORITY where
  "LOG_PRIORITY_ALL = UINT32_MAX"

definition LOG_MODULE_PAGING :: LOG_MODULE where
  "LOG_MODULE_PAGING = push_bit 0 1"

definition LOG_MODULE_ALL :: LOG_MODULE where
  "LOG_MODULE_ALL = UINT32_MAX"

text \<open>
  Modelled from the spec: \<^verbatim>\<open>SPINLOCK\<close>, \<^verbatim>\<open>LOCK_SpinlockAcquire\<close> and \<^verbatim>\<open>LOCK_SpinlockRelease\<close>
  are declared in \<^verbatim>\<open>utils.h\<close>, which is not among the sources. The spec treats the guard as
  "an opaque capability providing acquire/release with busy-wait semantics", acquired by
  "blocking/busy-waiting until available"; \<^verbatim>\<open>LOG_InitHandle\<close> stores 0 for the unlocked
  state. For one thread of control this is: acquiring a free lock takes it, acquiring a held
  lock waits for ever (the value \<open>None\<close>), releasing stores 0.
\<close>

type_synonym SPINLOCK = "32 word"

partial_function (option) LOCK_SpinlockAcquire :: "SPINLOCK \<Rightarrow> SPINLOCK option" where
  "LOCK_SpinlockAcquire l = (if l = 0 then Some 1 else LOCK_SpinlockAcquire l)"

declare LOCK_SpinlockAcquire.simps [code]

definition LOCK_SpinlockRelease :: "SPINLOCK \<Rightarrow> SPINLOCK" where
  "LOCK_SpinlockRelease l = 0"

record 'w LOG_HANDLE =
  pfnLogWrite :: "'w LOG_WRITE_PFN option"
  pvContext :: PVOID
  ePriorityFilterMask :: LOG_PRIORITY
  eModulesFilterMask :: LOG_MODULE
  tLock :: SPINLOCK

text \<open>
  What a run of the header's code does outside the handle: every call that leaves the header
  is recorded in order (taking the lock, releasing it, calling the sink), next to the sink's
  own world.
\<close>

datatype event = Acquire | Release | SinkCall PVOID string "va_value list"

record 'w env =
  world :: 'w
  trace :: "event list"

fun is_SinkCall :: "event \<Rightarrow> bool" where
  "is_SinkCall (SinkCall c f a) = True"
| "is_SinkCall Acquire = False"
| "is_SinkCall Release = False"

definition sink_invocations :: "event list \<Rightarrow> nat" where
  "sink_invocations t = length (filter is_SinkCall t)"

text \<open>
  Undefined behaviour of the C code is a value: reading a field through a \<^verbatim>\<open>NULL\<close> handle
  pointer, and calling through a \<^verbatim>\<open>NULL\<close> function pointer.
\<close>

datatype fault = NullPointerDereference | NullFunctionCall

section \<open>\<^verbatim>\<open>LOG_InitHandle\<close>\<close>

text \<open>
  The first argument is the storage \<^verbatim>\<open>ptLog\<close> points to (any previous contents) or \<open>None\<close>
  for \<^verbatim>\<open>NULL\<close>; the result is the return value and the storage afterwards.
\<close>

definition LOG_InitHandle ::
  "'w LOG_HANDLE option \<Rightarrow> 'w LOG_WRITE_PFN option \<Rightarrow> PVOID \<Rightarrow> LOG_MODULE \<Rightarrow> LOG_PRIORITY
    \<Rightarrow> BOOLEAN \<times> 'w LOG_HANDLE option" where
  "LOG_InitHandle ptLog pfn ctx eModules ePriority =
    (case ptLog of
       None \<Rightarrow> (FALSE, ptLog)
     | Some h \<Rightarrow>
         if pfn = None then (FALSE, ptLog)
         else (TRUE, Some (h\<lparr>pfnLogWrite := pfn, pvContext := ctx,
                              eModulesFilterMask := eModules,
                              ePriorityFilterMask := ePriority,
                              tLock := 0\<rparr>)))"

section \<open>\<^verbatim>\<open>LOG_Write\<close>\<close>

definition LOG_Write ::
  "'w LOG_HANDLE option \<Rightarrow> string option \<Rightarrow> va_value list \<Rightarrow> 'w env
    \<Rightarrow> fault + (BOOLEAN \<times> 'w env)" where
  "LOG_Write ptLog pszFmt tVaList e =
    (case ptLog of
       None \<Rightarrow> Inr (FALSE, e)
     | Some h \<Rightarrow>
         (case pszFmt of
            None \<Rightarrow> Inr (FALSE, e)
          | Some f \<Rightarrow>
              (case pfnLogWrite h of
                 None \<Rightarrow> Inl NullFunctionCall
               | Some pfn \<Rightarrow>
                   (case pfn (pvContext h) f tVaList (world e) of
                      (bSuccess, w) \<Rightarrow>
                        Inr (bSuccess,
                             \<lparr>world = w,
                              trace = trace e @ [SinkCall (pvContext h) f tVaList]\<rparr>)))))"

text \<open>\<^verbatim>\<open>(VOID)LOG_Write(...)\<close>: the call with its result thrown away.\<close>

definition VOID_LOG_Write ::
  "'w LOG_HANDLE option \<Rightarrow> string option \<Rightarrow> va_value list \<Rightarrow> 'w env \<Rightarrow> fault + 'w env" where
  "VOID_LOG_Write ptLog pszFmt tVaList e =
    (case LOG_Write ptLog pszFmt tVaList e of
       Inl x \<Rightarrow> Inl x
     | Inr (bSuccess, e') \<Rightarrow> Inr e')"

section \<open>The macros\<close>

text \<open>
  \<^verbatim>\<open>LOCK_SpinlockAcquire(&(ptLog)->tLock)\<close> and \<^verbatim>\<open>LOCK_SpinlockRelease(&(ptLog)->tLock)\<close> on the
  handle's lock field; both calls are recorded.
\<close>

definition acquire_tLock :: "'w LOG_HANDLE \<Rightarrow> 'w env \<Rightarrow> ('w LOG_HANDLE \<times> 'w env) option" where
  "acquire_tLock h e =
    (case LOCK_SpinlockAcquire (tLock h) of
       None \<Rightarrow> None
     | Some l \<Rightarrow> Some (h\<lparr>tLock := l\<rparr>, e\<lparr>trace := trace e @ [Acquire]\<rparr>))"

definition release_tLock :: "'w LOG_HANDLE \<Rightarrow> 'w env \<Rightarrow> 'w LOG_HANDLE \<times> 'w env" where
  "release_tLock h e =
    (h\<lparr>tLock := LOCK_SpinlockRelease (tLock h)\<rparr>, e\<lparr>trace := trace e @ [Release]\<rparr>)"

text \<open>
  A macro is the code it expands to at the call site. The result is \<open>None\<close> when the expansion
  never finishes (it waits for the lock for ever), \<open>Some (Inl x)\<close> when it runs into undefined
  behaviour, and otherwise the handle storage and the environment afterwards.

  \<^verbatim>\<open>LOG_WRITE\<close> has two definitions, chosen by \<^verbatim>\<open>#ifndef __INTEL_HEADERS_DISABLE_LOG__\<close>: the
  first argument says whether the flag is defined. With the flag defined the expansion is
  empty, so not even \<^verbatim>\<open>ptLog\<close> is read.
\<close>

definition LOG_WRITE ::
  "bool \<Rightarrow> 'w LOG_HANDLE option \<Rightarrow> LOG_MODULE \<Rightarrow> LOG_PRIORITY \<Rightarrow> string option \<Rightarrow> va_value list
    \<Rightarrow> 'w env \<Rightarrow> (fault + 'w LOG_HANDLE option \<times> 'w env) option" where
  "LOG_WRITE INTEL_HEADERS_DISABLE_LOG ptLog eModule ePriority pszFmt va e =
    (if INTEL_HEADERS_DISABLE_LOG then Some (Inr (ptLog, e))
     else
       (case ptLog of
          None \<Rightarrow> Some (Inl NullPointerDereference)
        | Some h \<Rightarrow>
            if 0 = (ePriorityFilterMask h AND ePriority) \<or> 0 = (eModulesFilterMask h AND eModule)
            then Some (Inr (ptLog, e))
            else
              (case acquire_tLock h e of
                 None \<Rightarrow> None
               | Some (h1, e1) \<Rightarrow>
                   (case VOID_LOG_Write (Some h1) pszFmt va e1 of
                      Inl x \<Rightarrow> Some (Inl x)
                    | Inr e2 \<Rightarrow>
                        (case release_tLock h1 e2 of
                           (h3, e3) \<Rightarrow> Some (Inr (Some h3, e3)))))))"

text \<open>
  The macro parameter \<^verbatim>\<open>PriorityName\<close> is a token: it is pasted into
  \<^verbatim>\<open>LOG_PRIORITY_##PriorityName\<close> and turned into a string by \<^verbatim>\<open>#PriorityName\<close>. The five
  public macros pass these five tokens.
\<close>

datatype PriorityName = ERROR | WARN | INFO | DEBUG | TRACE

fun LOG_PRIORITY_of :: "PriorityName \<Rightarrow> LOG_PRIORITY" where
  "LOG_PRIORITY_of ERROR = LOG_PRIORITY_ERROR"
| "LOG_PRIORITY_of WARN = LOG_PRIORITY_WARN"
| "LOG_PRIORITY_of INFO = LOG_PRIORITY_INFO"
| "LOG_PRIORITY_of DEBUG = LOG_PRIORITY_DEBUG"
| "LOG_PRIORITY_of TRACE = LOG_PRIORITY_TRACE"

fun stringify :: "PriorityName \<Rightarrow> string" where
  "stringify ERROR = ''ERROR''"
| "stringify WARN = ''WARN''"
| "stringify INFO = ''INFO''"
| "stringify DEBUG = ''DEBUG''"
| "stringify TRACE = ''TRACE''"

text \<open>
  The adjacent literals \<^verbatim>\<open>"(%s:%d) ["#PriorityName"] "\<close> are one string, and \<^verbatim>\<open>"\r\n"\<close> is
  carriage return, line feed.
\<close>

definition prefix_format :: "PriorityName \<Rightarrow> string" where
  "prefix_format n = ''(%s:%d) ['' @ stringify n @ ''] ''"

definition suffix_format :: string where
  "suffix_format = [CHR 0x0D, CHR 0x0A]"

text \<open>
  \<^verbatim>\<open>__LOG_PREFIX_BY_PRIORITY\<close> stands outside the \<^verbatim>\<open>#ifndef\<close>: it has one definition.
  \<open>FILE\<close> and \<open>LINE\<close> are \<^verbatim>\<open>__FILE__\<close> and \<^verbatim>\<open>__LINE__\<close> at the call site.
\<close>

definition LOG_PREFIX_BY_PRIORITY ::
  "string \<Rightarrow> int \<Rightarrow> 'w LOG_HANDLE option \<Rightarrow> LOG_MODULE \<Rightarrow> PriorityName \<Rightarrow> string option
    \<Rightarrow> va_value list \<Rightarrow> 'w env \<Rightarrow> (fault + 'w LOG_HANDLE option \<times> 'w env) option" where
  "LOG_PREFIX_BY_PRIORITY FILE LINE ptLog eModule n pszFmt va e =
    (case ptLog of
       None \<Rightarrow> Some (Inl NullPointerDereference)
     | Some h \<Rightarrow>
         if 0 = (ePriorityFilterMask h AND LOG_PRIORITY_of n) \<or> 0 = (eModulesFilterMask h AND eModule)
         then Some (Inr (ptLog, e))
         else
           (case acquire_tLock h e of
              None \<Rightarrow> None
            | Some (h1, e1) \<Rightarrow>
                (case VOID_LOG_Write (Some h1) (Some (prefix_format n)) [VA_Str FILE, VA_Int LINE] e1 of
                   Inl x \<Rightarrow> Some (Inl x)
                 | Inr e2 \<Rightarrow>
                     (case VOID_LOG_Write (Some h1) pszFmt va e2 of
                        Inl x \<Rightarrow> Some (Inl x)
                      | Inr e3 \<Rightarrow>
                          (case VOID_LOG_Write (Some h1) (Some suffix_format) [] e3 of
                             Inl x \<Rightarrow> Some (Inl x)
                           | Inr e4 \<Rightarrow>
                               (case release_tLock h1 e4 of
                                  (h5, e5) \<Rightarrow> Some (Inr (Some h5, e5))))))))"

definition LOG_ERROR where
  "LOG_ERROR FILE LINE ptLog eModule pszFmt va =
     LOG_PREFIX_BY_PRIORITY FILE LINE ptLog eModule ERROR pszFmt va"

definition LOG_WARN where
  "LOG_WARN FILE LINE ptLog eModule pszFmt va =
     LOG_PREFIX_BY_PRIORITY FILE LINE ptLog eModule WARN pszFmt va"

definition LOG_INFO where
  "LOG_INFO FILE LINE ptLog eModule pszFmt va =
     LOG_PREFIX_BY_PRIORITY FILE LINE ptLog eModule INFO pszFmt va"

definition LOG_DEBUG where
  "LOG_DEBUG FILE LINE ptLog eModule pszFmt va =
     LOG_PREFIX_BY_PRIORITY FILE LINE ptLog eModule DEBUG pszFmt va"

definition LOG_TRACE where
  "LOG_TRACE FILE LINE ptLog eModule pszFmt va =
     LOG_PREFIX_BY_PRIORITY FILE LINE ptLog eModule TRACE pszFmt va"

text \<open>The public macro that passes each token.\<close>

fun decorated_macro ::
  "PriorityName \<Rightarrow> string \<Rightarrow> int \<Rightarrow> 'w LOG_HANDLE option \<Rightarrow> LOG_MODULE \<Rightarrow> string option
    \<Rightarrow> va_value list \<Rightarrow> 'w env \<Rightarrow> (fault + 'w LOG_HANDLE option \<times> 'w env) option" where
  "decorated_macro ERROR = LOG_ERROR"
| "decorated_macro WARN = LOG_WARN"
| "decorated_macro INFO = LOG_INFO"
| "decorated_macro DEBUG = LOG_DEBUG"
| "decorated_macro TRACE = LOG_TRACE"

section \<open>Logging operations as values\<close>

text \<open>
  The three kinds of logging call a translation unit can make, and what a call does to the
  handle storage and the environment in a build where \<^verbatim>\<open>__INTEL_HEADERS_DISABLE_LOG__\<close> is
  defined (\<open>True\<close>) or not. The function \<^verbatim>\<open>LOG_Write\<close> and the decorated macros are outside
  the \<^verbatim>\<open>#ifndef\<close> and do not depend on the flag. \<^verbatim>\<open>LOG_Write\<close> has no assignment through
  \<^verbatim>\<open>ptLog\<close>: the storage after the call is the storage before it.
\<close>

datatype operation = Raw | Filtered LOG_PRIORITY | Decorated PriorityName

definition run_operation ::
  "bool \<Rightarrow> operation \<Rightarrow> string \<Rightarrow> int \<Rightarrow> 'w LOG_HANDLE option \<Rightarrow> LOG_MODULE \<Rightarrow> string option
    \<Rightarrow> va_value list \<Rightarrow> 'w env \<Rightarrow> (fault + 'w LOG_HANDLE option \<times> 'w env) option" where
  "run_operation INTEL_HEADERS_DISABLE_LOG op FILE LINE ptLog eModule pszFmt va e =
    (case op of
       Raw \<Rightarrow>
         (case VOID_LOG_Write ptLog pszFmt va e of
            Inl x \<Rightarrow> Some (Inl x)
          | Inr e' \<Rightarrow> Some (Inr (ptLog, e')))
     | Filtered ePriority \<Rightarrow>
         LOG_WRITE INTEL_HEADERS_DISABLE_LOG ptLog eModule ePriority pszFmt va e
     | Decorated n \<Rightarrow> decorated_macro n FILE LINE ptLog eModule pszFmt va e)"

section \<open>Sample values\<close>

text \<open>
  A sink that counts the calls it receives in its world and reports the given result, a
  handle as \<^verbatim>\<open>LOG_InitHandle\<close> leaves it, and an environment in which nothing has happened.
\<close>

definition counting_sink :: "BOOLEAN \<Rightarrow> nat LOG_WRITE_PFN" where
  "counting_sink ok ctx f va w = (ok, Suc w)"

definition sample_handle :: "BOOLEAN \<Rightarrow> LOG_MODULE \<Rightarrow> LOG_PRIORITY \<Rightarrow> nat LOG_HANDLE" where
  "sample_handle ok eModules ePriority =
    \<lparr>pfnLogWrite = Some (counting_sink ok), pvContext = Some 7,
     ePriorityFilterMask = ePriority, eModulesFilterMask = eModules, tLock = 0\<rparr>"

definition start :: "nat env" where
  "start = \<lparr>world = 0, trace = []\<rparr>"

section \<open>Several threads on one handle\<close>

text \<open>
  A decorated call as written at a call site: \<^verbatim>\<open>__FILE__\<close>, \<^verbatim>\<open>__LINE__\<close>, the module, the
  priority token, the format and the arguments.
\<close>

record decorated_call =
  c_FILE :: string
  c_LINE :: int
  c_module :: LOG_MODULE
  c_name :: PriorityName
  c_fmt :: "string option"
  c_args :: "va_value list"

text \<open>
  Where a thread stands inside the expansion of \<^verbatim>\<open>__LOG_PREFIX_BY_PRIORITY\<close>: before the
  filter test, before \<^verbatim>\<open>LOCK_SpinlockAcquire\<close>, before each of the three \<^verbatim>\<open>LOG_Write\<close> calls,
  before \<^verbatim>\<open>LOCK_SpinlockRelease\<close>.
\<close>

datatype position = AtFilter | AtAcquire | AtPrefix | AtBody | AtSuffix | AtRelease

text \<open>
  Threads are numbered. Each thread makes the decorated calls of its list one after the
  other on the shared handle; \<open>g_pc\<close> gives, for each thread, the number of the call it is in
  and its position there. \<open>g_log\<close> is what a sink that records thread identity would hold:
  one entry (thread, number of the call) for every invocation of the sink, in the order of
  the invocations. \<open>g_fault\<close> is set when a thread has run into undefined behaviour; the
  program has then stopped.
\<close>

record 'w global =
  g_handle :: "'w LOG_HANDLE"
  g_env :: "'w env"
  g_pc :: "nat \<Rightarrow> nat \<times> position"
  g_log :: "(nat \<times> nat) list"
  g_fault :: "fault option"

definition init :: "'w LOG_HANDLE \<Rightarrow> 'w env \<Rightarrow> 'w global" where
  "init h e = \<lparr>g_handle = h, g_env = e, g_pc = (\<lambda>t. (0, AtFilter)), g_log = [],
              g_fault = None\<rparr>"

text \<open>
  Modelled from the spec: \<^verbatim>\<open>LOCK_SpinlockAcquire\<close> is declared in \<^verbatim>\<open>utils.h\<close>, which is not
  among the sources. The spec calls the guard a "mutual-exclusion primitive" whose
  acquisition is "a busy-wait (spin) primitive: callers block without yielding the processor
  while contended". One attempt of the busy-wait is one indivisible step: it finds the lock
  free and takes it, or finds it held and changes nothing, and the thread tries again at its
  next step.
\<close>

definition try_acquire_tLock ::
  "'w LOG_HANDLE \<Rightarrow> 'w env \<Rightarrow> ('w LOG_HANDLE \<times> 'w env) option" where
  "try_acquire_tLock h e =
    (if tLock h = 0 then Some (h\<lparr>tLock := 1\<rparr>, e\<lparr>trace := trace e @ [Acquire]\<rparr>) else None)"

text \<open>
  One \<^verbatim>\<open>(VOID)LOG_Write\<close> of thread \<open>t\<close> in its call number \<open>k\<close>: every sink invocation it
  adds to the trace is entered in the log under \<open>(t, k)\<close>, and the thread moves on to
  \<open>next\<close>.
\<close>

definition write_part ::
  "nat \<Rightarrow> nat \<Rightarrow> string option \<Rightarrow> va_value list \<Rightarrow> position \<Rightarrow> 'w global \<Rightarrow> 'w global" where
  "write_part t k pszFmt va next s =
    (case VOID_LOG_Write (Some (g_handle s)) pszFmt va (g_env s) of
       Inl x \<Rightarrow> s\<lparr>g_fault := Some x\<rparr>
     | Inr e' \<Rightarrow>
         s\<lparr>g_env := e',
           g_log := g_log s @
             replicate (sink_invocations (trace e') - sink_invocations (trace (g_env s))) (t, k),
           g_pc := (g_pc s)(t := (k, next))\<rparr>)"

text \<open>
  One step of thread \<open>t\<close>: the piece of \<^verbatim>\<open>__LOG_PREFIX_BY_PRIORITY\<close> at its position, on the
  shared handle and environment. A thread whose calls are all made, and every thread of a
  stopped program, does nothing.
\<close>

definition step :: "(nat \<Rightarrow> decorated_call list) \<Rightarrow> nat \<Rightarrow> 'w global \<Rightarrow> 'w global" where
  "step calls t s =
    (case g_fault s of
       Some x \<Rightarrow> s
     | None \<Rightarrow>
         (case g_pc s t of
            (k, pos) \<Rightarrow>
              if length (calls t) \<le> k then s
              else
                (case pos of
                   AtFilter \<Rightarrow>
                     if 0 = (ePriorityFilterMask (g_handle s) AND LOG_PRIORITY_of (c_name (calls t ! k)))
                        \<or> 0 = (eModulesFilterMask (g_handle s) AND c_module (calls t ! k))
                     then s\<lparr>g_pc := (g_pc s)(t := (Suc k, AtFilter))\<rparr>
                     else s\<lparr>g_pc := (g_pc s)(t := (k, AtAcquire))\<rparr>
                 | AtAcquire \<Rightarrow>
                     (case try_acquire_tLock (g_handle s) (g_env s) of
                        None \<Rightarrow> s
                      | Some (h1, e1) \<Rightarrow>
                          s\<lparr>g_handle := h1, g_env := e1, g_pc := (g_pc s)(t := (k, AtPrefix))\<rparr>)
                 | AtPrefix \<Rightarrow>
                     write_part t k (Some (prefix_format (c_name (calls t ! k))))
                       [VA_Str (c_FILE (calls t ! k)), VA_Int (c_LINE (calls t ! k))] AtBody s
                 | AtBody \<Rightarrow>
                     write_part t k (c_fmt (calls t ! k)) (c_args (calls t ! k)) AtSuffix s
                 | AtSuffix \<Rightarrow>
                     write_part t k (Some suffix_format) [] AtRelease s
                 | AtRelease \<Rightarrow>
                     (case release_tLock (g_handle s) (g_env s) of
                        (h', e') \<Rightarrow>
                          s\<lparr>g_handle := h', g_env := e',
                            g_pc := (g_pc s)(t := (Suc k, AtFilter))\<rparr>))))"

text \<open>
  A schedule is the list of the threads that take the steps, in order: any interleaving of
  any number of threads.
\<close>

fun run :: "(nat \<Rightarrow> decorated_call list) \<Rightarrow> nat list \<Rightarrow> 'w global \<Rightarrow> 'w global" where
  "run calls [] s = s"
| "run calls (t # ts) s = run calls ts (step calls t s)"

text \<open>
  A log is contiguous when all entries of one message stand next to each other: after the
  first entry of a message and the entries equal to it that follow directly, the message
  does not come again.
\<close>

fun contiguous :: "'a list \<Rightarrow> bool" where
  "contiguous [] = True"
| "contiguous (x # xs) = (x \<notin> set (dropWhile (\<lambda>y. y = x) xs) \<and> contiguous xs)"

text \<open>The same with positions: no other entry between two entries of one message.\<close>

definition never_interleaved :: "'a list \<Rightarrow> bool" where
  "never_interleaved xs =
    (\<forall>i j k. i < j \<and> j < k \<and> k < length xs \<and> xs ! i = xs ! k \<longrightarrow> xs ! j = xs ! i)"

text \<open>A thread holds the lock from the prefix to the release.\<close>

definition holds_lock :: "'w global \<Rightarrow> nat \<Rightarrow> bool" where
  "holds_lock s t = (snd (g_pc s t) \<in> {AtPrefix, AtBody, AtSuffix, AtRelease})"

text \<open>
  What every reachable state satisfies: while a thread holds the lock the lock word is not 0
  and no other thread holds it; the log is contiguous; a message in the log is a call its
  thread has reached, and if the thread is still in that call it holds the lock and the
  message is the last entry of the log.
\<close>

definition guarded :: "'w global \<Rightarrow> bool" where
  "guarded s =
    ((\<forall>t. holds_lock s t \<longrightarrow> tLock (g_handle s) \<noteq> 0) \<and>
     (\<forall>t t'. holds_lock s t \<and> holds_lock s t' \<longrightarrow> t = t') \<and>
     contiguous (g_log s) \<and>
     (\<forall>t k. (t, k) \<in> set (g_log s) \<longrightarrow>
        k \<le> fst (g_pc s t) \<and>
        (k = fst (g_pc s t) \<longrightarrow> holds_lock s t \<and> last (g_log s) = (t, k))))"

text \<open>Two threads, each with one Error call of the paging module.\<close>

definition two_threads :: "nat \<Rightarrow> decorated_call list" where
  "two_threads t =
    (if t = 0 then
       [\<lparr>c_FILE = ''paging.c'', c_LINE = 42, c_module = LOG_MODULE_PAGING, c_name = ERROR,
         c_fmt = Some ''x=%d'', c_args = [VA_Int 5]\<rparr>]
     else if t = 1 then
       [\<lparr>c_FILE = ''vmx.c'', c_LINE = 7, c_module = LOG_MODULE_PAGING, c_name = ERROR,
         c_fmt = Some ''y=%d'', c_args = [VA_Int 6]\<rparr>]
     else [])"

section \<open>The sample handle is an initialised handle\<close>

lemma sample_handle_initialised:
  "LOG_InitHandle (Some h) (Some (counting_sink ok)) (Some 7) eModules ePriority =
     (TRUE, Some (sample_handle ok eModules ePriority))"
  by (simp add: LOG_InitHandle_def sample_handle_def)

section \<open>The spinlock for one thread of control\<close>

lemma LOCK_SpinlockAcquire_free: "LOCK_SpinlockAcquire 0 = Some 1"
  by (subst LOCK_SpinlockAcquire.simps) simp

lemma LOCK_SpinlockAcquire_SomeD:
  assumes "LOCK_SpinlockAcquire l = Some l'"
  shows "l = 0 \<and> l' = 1"
proof (rule LOCK_SpinlockAcquire.raw_induct [where P = "\<lambda>l l'. l = 0 \<and> l' = 1"])
  show "LOCK_SpinlockAcquire l = Some l'" by fact
next
  fix g :: "SPINLOCK \<Rightarrow> SPINLOCK option" and x y
  assume "\<And>l l'. g l = Some l' \<Longrightarrow> l = 0 \<and> l' = 1"
    and "(if x = 0 then Some 1 else g x) = Some y"
  then show "x = 0 \<and> y = 1"
    by (cases "x = 0") auto
qed

lemma LOCK_SpinlockAcquire_held: "l \<noteq> 0 \<Longrightarrow> LOCK_SpinlockAcquire l = None"
  using LOCK_SpinlockAcquire_SomeD by (cases "LOCK_SpinlockAcquire l") auto

lemma acquire_tLock_free:
  "tLock h = 0 \<Longrightarrow>
     acquire_tLock h e = Some (h\<lparr>tLock := 1\<rparr>, e\<lparr>trace := trace e @ [Acquire]\<rparr>)"
  by (simp add: acquire_tLock_def LOCK_SpinlockAcquire_free)

lemma acquire_tLock_SomeD:
  "acquire_tLock h e = Some (h1, e1) \<Longrightarrow>
     tLock h = 0 \<and> h1 = h\<lparr>tLock := 1\<rparr> \<and> e1 = e\<lparr>trace := trace e @ [Acquire]\<rparr>"
  by (auto simp: acquire_tLock_def split: option.splits dest: LOCK_SpinlockAcquire_SomeD)

lemma acquire_tLock_held: "tLock h \<noteq> 0 \<Longrightarrow> acquire_tLock h e = None"
  by (simp add: acquire_tLock_def LOCK_SpinlockAcquire_held)

lemma release_after_acquire:
  "tLock h = 0 \<Longrightarrow>
     release_tLock (h\<lparr>tLock := 1\<rparr>) e = (h, e\<lparr>trace := trace e @ [Release]\<rparr>)"
  by (simp add: release_tLock_def LOCK_SpinlockRelease_def)

section \<open>The raw write inside the macros\<close>

lemma VOID_LOG_Write_sink:
  "pfnLogWrite h = Some pfn \<Longrightarrow>
   VOID_LOG_Write (Some h) (Some f) va e =
     Inr \<lparr>world = snd (pfn (pvContext h) f va (world e)),
          trace = trace e @ [SinkCall (pvContext h) f va]\<rparr>"
  by (simp add: VOID_LOG_Write_def LOG_Write_def split: prod.splits)

lemma VOID_LOG_Write_null_format: "VOID_LOG_Write ptLog None va e = Inr e"
  by (simp add: VOID_LOG_Write_def LOG_Write_def split: option.splits)

lemma decorated_macro_eq:
  "decorated_macro n FILE LINE ptLog m fmt va e =
     LOG_PREFIX_BY_PRIORITY FILE LINE ptLog m n fmt va e"
  by (cases n) (simp_all add: LOG_ERROR_def LOG_WARN_def LOG_INFO_def LOG_DEBUG_def LOG_TRACE_def)

section \<open>What the macros do\<close>

lemma LOG_PREFIX_BY_PRIORITY_rejects:
  "0 = (ePriorityFilterMask h AND LOG_PRIORITY_of n) \<or> 0 = (eModulesFilterMask h AND m) \<Longrightarrow>
     LOG_PREFIX_BY_PRIORITY FILE LINE (Some h) m n fmt va e = Some (Inr (Some h, e))"
  by (simp add: LOG_PREFIX_BY_PRIORITY_def)

lemma LOG_WRITE_rejects:
  "0 = (ePriorityFilterMask h AND p) \<or> 0 = (eModulesFilterMask h AND m) \<Longrightarrow>
     LOG_WRITE d (Some h) m p fmt va e = Some (Inr (Some h, e))"
  by (simp add: LOG_WRITE_def)

lemma LOG_PREFIX_BY_PRIORITY_emits:
  assumes "ePriorityFilterMask h AND LOG_PRIORITY_of n \<noteq> 0" "eModulesFilterMask h AND m \<noteq> 0"
    and "pfnLogWrite h = Some pfn" "tLock h = 0"
  shows "LOG_PREFIX_BY_PRIORITY FILE LINE (Some h) m n (Some f) va e =
    Some (Inr (Some h,
      \<lparr>world = snd (pfn (pvContext h) suffix_format []
                 (snd (pfn (pvContext h) f va
                   (snd (pfn (pvContext h) (prefix_format n) [VA_Str FILE, VA_Int LINE]
                          (world e)))))),
       trace = trace e @ [Acquire,
                 SinkCall (pvContext h) (prefix_format n) [VA_Str FILE, VA_Int LINE],
                 SinkCall (pvContext h) f va,
                 SinkCall (pvContext h) suffix_format [],
                 Release]\<rparr>))"
  using assms
  by (simp add: LOG_PREFIX_BY_PRIORITY_def acquire_tLock_free VOID_LOG_Write_sink
      release_after_acquire eq_commute [of 0])

lemma LOG_PREFIX_BY_PRIORITY_null_format:
  assumes "ePriorityFilterMask h AND LOG_PRIORITY_of n \<noteq> 0" "eModulesFilterMask h AND m \<noteq> 0"
    and "pfnLogWrite h = Some pfn" "tLock h = 0"
  shows "LOG_PREFIX_BY_PRIORITY FILE LINE (Some h) m n None va e =
    Some (Inr (Some h,
      \<lparr>world = snd (pfn (pvContext h) suffix_format []
                   (snd (pfn (pvContext h) (prefix_format n) [VA_Str FILE, VA_Int LINE]
                          (world e)))),
       trace = trace e @ [Acquire,
                 SinkCall (pvContext h) (prefix_format n) [VA_Str FILE, VA_Int LINE],
                 SinkCall (pvContext h) suffix_format [],
                 Release]\<rparr>))"
  using assms
  by (simp add: LOG_PREFIX_BY_PRIORITY_def acquire_tLock_free VOID_LOG_Write_sink
      VOID_LOG_Write_null_format release_after_acquire eq_commute [of 0])

lemma LOG_WRITE_emits:
  assumes "ePriorityFilterMask h AND p \<noteq> 0" "eModulesFilterMask h AND m \<noteq> 0"
    and "pfnLogWrite h = Some pfn" "tLock h = 0"
  shows "LOG_WRITE False (Some h) m p (Some f) va e =
    Some (Inr (Some h,
      \<lparr>world = snd (pfn (pvContext h) f va (world e)),
       trace = trace e @ [Acquire, SinkCall (pvContext h) f va, Release]\<rparr>))"
  using assms
  by (simp add: LOG_WRITE_def acquire_tLock_free VOID_LOG_Write_sink
      release_after_acquire eq_commute [of 0])

lemma LOG_WRITE_null_format:
  assumes "ePriorityFilterMask h AND p \<noteq> 0" "eModulesFilterMask h AND m \<noteq> 0"
    and "tLock h = 0"
  shows "LOG_WRITE False (Some h) m p None va e =
    Some (Inr (Some h, e\<lparr>trace := trace e @ [Acquire, Release]\<rparr>))"
  using assms
  by (simp add: LOG_WRITE_def acquire_tLock_free VOID_LOG_Write_null_format
      release_after_acquire eq_commute [of 0])

text \<open>
  Why the lock has to be free on entry: with one thread of control, a call that passes the
  filter on a handle whose lock is held waits for ever.
\<close>

lemma LOG_WRITE_waits:
  assumes "ePriorityFilterMask h AND p \<noteq> 0" "eModulesFilterMask h AND m \<noteq> 0"
    and "tLock h \<noteq> 0"
  shows "LOG_WRITE False (Some h) m p fmt va e = None"
  using assms by (simp add: LOG_WRITE_def acquire_tLock_held eq_commute [of 0])

lemma LOG_PREFIX_BY_PRIORITY_waits:
  assumes "ePriorityFilterMask h AND LOG_PRIORITY_of n \<noteq> 0" "eModulesFilterMask h AND m \<noteq> 0"
    and "tLock h \<noteq> 0"
  shows "LOG_PREFIX_BY_PRIORITY FILE LINE (Some h) m n fmt va e = None"
  using assms by (simp add: LOG_PREFIX_BY_PRIORITY_def acquire_tLock_held eq_commute [of 0])

lemma LOG_PREFIX_BY_PRIORITY_handle:
  assumes "LOG_PREFIX_BY_PRIORITY FILE LINE (Some h) m n fmt va e = Some (Inr (p', e'))"
  shows "p' = Some h"
proof (cases "0 = (ePriorityFilterMask h AND LOG_PRIORITY_of n) \<or> 0 = (eModulesFilterMask h AND m)")
  case True
  with assms show ?thesis by (simp add: LOG_PREFIX_BY_PRIORITY_def)
next
  case False
  with assms obtain h1 e1 where a: "acquire_tLock h e = Some (h1, e1)"
    by (auto simp: LOG_PREFIX_BY_PRIORITY_def split: option.splits)
  then have free: "tLock h = 0" and h1: "h1 = h\<lparr>tLock := 1\<rparr>"
    using acquire_tLock_SomeD by blast+
  from assms False a have "\<exists>e4. release_tLock h1 e4 = (the p', e') \<and> p' \<noteq> None"
    by (auto simp: LOG_PREFIX_BY_PRIORITY_def split: sum.splits prod.splits)
  then show ?thesis
    using free h1 by (auto simp: release_after_acquire)
qed

lemma LOG_WRITE_handle:
  assumes "LOG_WRITE d (Some h) m p fmt va e = Some (Inr (p', e'))"
  shows "p' = Some h"
proof (cases "d \<or> 0 = (ePriorityFilterMask h AND p) \<or> 0 = (eModulesFilterMask h AND m)")
  case True
  with assms show ?thesis by (auto simp: LOG_WRITE_def split: if_splits)
next
  case False
  with assms obtain h1 e1 where a: "acquire_tLock h e = Some (h1, e1)"
    by (auto simp: LOG_WRITE_def split: option.splits)
  then have free: "tLock h = 0" and h1: "h1 = h\<lparr>tLock := 1\<rparr>"
    using acquire_tLock_SomeD by blast+
  from assms False a have "\<exists>e4. release_tLock h1 e4 = (the p', e') \<and> p' \<noteq> None"
    by (auto simp: LOG_WRITE_def split: sum.splits prod.splits)
  then show ?thesis
    using free h1 by (auto simp: release_after_acquire)
qed

lemma run_operation_handle:
  assumes "run_operation d op FILE LINE (Some h) m fmt va e = Some (Inr (p', e'))"
  shows "p' = Some h"
proof (cases op)
  case Raw
  with assms show ?thesis
    by (auto simp: run_operation_def split: sum.splits)
next
  case (Filtered p)
  with assms show ?thesis
    by (auto simp: run_operation_def dest: LOG_WRITE_handle)
next
  case (Decorated n)
  with assms show ?thesis
    by (auto simp: run_operation_def decorated_macro_eq dest: LOG_PREFIX_BY_PRIORITY_handle)
qed

lemma VOID_LOG_Write_returns:
  "pfnLogWrite h \<noteq> None \<Longrightarrow> \<exists>e'. VOID_LOG_Write (Some h) fmt va e = Inr e'"
  by (cases fmt) (auto simp: VOID_LOG_Write_null_format VOID_LOG_Write_sink)

lemma run_operation_returns:
  assumes "pfnLogWrite h \<noteq> None" "tLock h = 0"
  shows "\<exists>e'. run_operation d op FILE LINE (Some h) m fmt va e = Some (Inr (Some h, e'))"
proof -
  from assms obtain pfn where pfn: "pfnLogWrite h = Some pfn" by auto
  show ?thesis
  proof (cases op)
    case Raw
    then show ?thesis
      using VOID_LOG_Write_returns [OF assms(1), of fmt va e]
      by (auto simp: run_operation_def)
  next
    case (Filtered p)
    show ?thesis
    proof (cases "d \<or> 0 = (ePriorityFilterMask h AND p) \<or> 0 = (eModulesFilterMask h AND m)")
      case True
      then show ?thesis using Filtered by (auto simp: run_operation_def LOG_WRITE_def)
    next
      case False
      then have pass: "ePriorityFilterMask h AND p \<noteq> 0" "eModulesFilterMask h AND m \<noteq> 0"
        and d: "d = False"
        by auto
      show ?thesis
      proof (cases fmt)
        case None
        then show ?thesis
          using Filtered d LOG_WRITE_null_format [OF pass assms(2)]
          by (simp add: run_operation_def)
      next
        case (Some f)
        then show ?thesis
          using Filtered d LOG_WRITE_emits [OF pass pfn assms(2)]
          by (simp add: run_operation_def)
      qed
    qed
  next
    case (Decorated n)
    show ?thesis
    proof (cases "0 = (ePriorityFilterMask h AND LOG_PRIORITY_of n) \<or> 0 = (eModulesFilterMask h AND m)")
      case True
      then show ?thesis
        using Decorated LOG_PREFIX_BY_PRIORITY_rejects [OF True]
        by (simp add: run_operation_def decorated_macro_eq)
    next
      case False
      then have pass: "ePriorityFilterMask h AND LOG_PRIORITY_of n \<noteq> 0"
          "eModulesFilterMask h AND m \<noteq> 0"
        by auto
      show ?thesis
      proof (cases fmt)
        case None
        then show ?thesis
          using Decorated LOG_PREFIX_BY_PRIORITY_null_format [OF pass pfn assms(2)]
          by (simp add: run_operation_def decorated_macro_eq)
      next
        case (Some f)
        then show ?thesis
          using Decorated LOG_PREFIX_BY_PRIORITY_emits [OF pass pfn assms(2)]
          by (simp add: run_operation_def decorated_macro_eq)
      qed
    qed
  qed
qed

section \<open>Contiguous logs\<close>

lemma dropWhile_notin:
  "x \<notin> set (dropWhile (\<lambda>y. y = x) xs) \<Longrightarrow> m < n \<Longrightarrow> n < length xs \<Longrightarrow> xs ! n = x \<Longrightarrow> xs ! m = x"
proof (induction xs arbitrary: m n)
  case Nil
  then show ?case by simp
next
  case (Cons a xs)
  show ?case
  proof (cases "a = x")
    case True
    with Cons.prems have notin: "x \<notin> set (dropWhile (\<lambda>y. y = x) xs)" by simp
    show ?thesis
    proof (cases m)
      case 0
      then show ?thesis using True by simp
    next
      case (Suc m')
      from Cons.prems(2) obtain n' where n': "n = Suc n'" by (cases n) simp_all
      from Cons.prems Suc n' have "m' < n'" "n' < length xs" "xs ! n' = x" by simp_all
      with notin have "xs ! m' = x" by (rule Cons.IH)
      then show ?thesis using Suc by simp
    qed
  next
    case False
    with Cons.prems(1) have "x \<notin> set (a # xs)" by simp
    moreover from Cons.prems(3) have "(a # xs) ! n \<in> set (a # xs)" by (rule nth_mem)
    ultimately show ?thesis using Cons.prems(4) by simp
  qed
qed


lemma contiguous_never_interleaved:
  "contiguous xs \<Longrightarrow> never_interleaved xs"
  unfolding never_interleaved_def
proof (induction xs)
  case Nil
  then show ?case by simp
next
  case (Cons a xs)
  from Cons.prems have notin: "a \<notin> set (dropWhile (\<lambda>y. y = a) xs)" and c: "contiguous xs"
    by simp_all
  from c have IH: "\<forall>i j k. i < j \<and> j < k \<and> k < length xs \<and> xs ! i = xs ! k \<longrightarrow> xs ! j = xs ! i"
    by (rule Cons.IH)
  show ?case
  proof (intro allI impI, elim conjE)
    fix i j k
    assume ij: "i < j" and jk: "j < k" and k: "k < length (a # xs)"
      and eq: "(a # xs) ! i = (a # xs) ! k"
    from ij obtain j' where j': "j = Suc j'" by (cases j) simp_all
    from jk obtain k' where k': "k = Suc k'" by (cases k) simp_all
    from jk k j' k' have jk': "j' < k'" and kl: "k' < length xs" by simp_all
    show "(a # xs) ! j = (a # xs) ! i"
    proof (cases i)
      case 0
      with eq k' have "xs ! k' = a" by simp
      with notin jk' kl have "xs ! j' = a" by (rule dropWhile_notin)
      then show ?thesis using 0 j' by simp
    next
      case (Suc i')
      with ij j' have "i' < j'" by simp
      moreover from eq Suc k' have "xs ! i' = xs ! k'" by simp
      ultimately have "xs ! j' = xs ! i'" using IH jk' kl by blast
      then show ?thesis using Suc j' by simp
    qed
  qed
qed

lemma contiguous_snoc:
  "contiguous xs \<Longrightarrow> x \<notin> set xs \<or> (xs \<noteq> [] \<and> last xs = x) \<Longrightarrow> contiguous (xs @ [x])"
proof (induction xs)
  case Nil
  then show ?case by simp
next
  case (Cons a xs)
  from Cons.prems have notin: "a \<notin> set (dropWhile (\<lambda>y. y = a) xs)" and c: "contiguous xs"
    by simp_all
  have tail: "contiguous (xs @ [x])"
  proof (cases "xs = []")
    case True
    then show ?thesis by simp
  next
    case False
    with Cons.prems have "x \<notin> set xs \<or> (xs \<noteq> [] \<and> last xs = x)" by auto
    with c show ?thesis by (rule Cons.IH)
  qed
  have "a \<notin> set (dropWhile (\<lambda>y. y = a) (xs @ [x]))"
  proof (cases "\<forall>y\<in>set xs. y = a")
    case True
    then show ?thesis by (simp add: dropWhile_append)
  next
    case False
    then have ne: "dropWhile (\<lambda>y. y = a) xs \<noteq> []" by simp
    from False have d: "dropWhile (\<lambda>y. y = a) (xs @ [x]) = dropWhile (\<lambda>y. y = a) xs @ [x]"
      by (simp add: dropWhile_append)
    have "x \<noteq> a"
    proof
      assume xa: "x = a"
      from False have "xs \<noteq> []" by auto
      with xa Cons.prems have lx: "last xs = a" by auto
      have "last xs = last (takeWhile (\<lambda>y. y = a) xs @ dropWhile (\<lambda>y. y = a) xs)"
        by simp
      also have "\<dots> = last (dropWhile (\<lambda>y. y = a) xs)"
        using ne by (rule last_appendR)
      finally have "a = last (dropWhile (\<lambda>y. y = a) xs)" using lx by simp
      moreover from ne have "last (dropWhile (\<lambda>y. y = a) xs) \<in> set (dropWhile (\<lambda>y. y = a) xs)"
        by (rule last_in_set)
      ultimately have "a \<in> set (dropWhile (\<lambda>y. y = a) xs)" by simp
      with notin show False by simp
    qed
    with notin d show ?thesis by simp
  qed
  with tail show ?case by simp
qed

lemma contiguous_append_replicate:
  "contiguous xs \<Longrightarrow> x \<notin> set xs \<or> (xs \<noteq> [] \<and> last xs = x) \<Longrightarrow> contiguous (xs @ replicate n x)"
proof (induction n arbitrary: xs)
  case 0
  then show ?case by simp
next
  case (Suc n)
  from Suc.prems have "contiguous (xs @ [x])" by (rule contiguous_snoc)
  then have "contiguous ((xs @ [x]) @ replicate n x)"
    by (rule Suc.IH) simp
  then show ?case by simp
qed

section \<open>What holds in every state of an interleaved run\<close>

lemma guarded_init: "guarded (init h e)"
  by (simp add: guarded_def init_def holds_lock_def)

lemma guardedI:
  assumes "\<And>t. holds_lock s t \<Longrightarrow> tLock (g_handle s) \<noteq> 0"
    and "\<And>t t'. holds_lock s t \<Longrightarrow> holds_lock s t' \<Longrightarrow> t = t'"
    and "contiguous (g_log s)"
    and "\<And>t k. (t, k) \<in> set (g_log s) \<Longrightarrow> k \<le> fst (g_pc s t)"
    and "\<And>t k. (t, k) \<in> set (g_log s) \<Longrightarrow> k = fst (g_pc s t) \<Longrightarrow>
           holds_lock s t \<and> last (g_log s) = (t, k)"
  shows "guarded s"
  unfolding guarded_def using assms by blast

lemma guarded_lockD: "guarded s \<Longrightarrow> holds_lock s t \<Longrightarrow> tLock (g_handle s) \<noteq> 0"
  unfolding guarded_def by blast

lemma guarded_uniqueD: "guarded s \<Longrightarrow> holds_lock s t \<Longrightarrow> holds_lock s t' \<Longrightarrow> t = t'"
  unfolding guarded_def by blast

lemma guarded_contiguousD: "guarded s \<Longrightarrow> contiguous (g_log s)"
  unfolding guarded_def by blast

lemma guarded_log_leD:
  "guarded s \<Longrightarrow> (t, k') \<in> set (g_log s) \<Longrightarrow> g_pc s t = (k, pos) \<Longrightarrow> k' \<le> k"
  unfolding guarded_def by fastforce

lemma guarded_log_curD:
  "guarded s \<Longrightarrow> (t, k) \<in> set (g_log s) \<Longrightarrow> g_pc s t = (k, pos) \<Longrightarrow>
     holds_lock s t \<and> last (g_log s) = (t, k)"
  unfolding guarded_def by fastforce

lemma guarded_log_otherD:
  assumes "guarded s" and "(t', k') \<in> set (g_log s)" and "holds_lock s t" and "t' \<noteq> t"
  shows "k' < fst (g_pc s t')"
proof -
  obtain k pos where pc: "g_pc s t' = (k, pos)" by (cases "g_pc s t'")
  from assms(1,2) pc have le: "k' \<le> k" by (rule guarded_log_leD)
  have "k' \<noteq> k"
  proof
    assume "k' = k"
    with assms(1,2) pc have "holds_lock s t'" using guarded_log_curD by blast
    with assms(1,3) have "t = t'" using guarded_uniqueD by blast
    with assms(4) show False by simp
  qed
  with le pc show ?thesis by simp
qed

lemma guarded_log_idleD:
  assumes "guarded s" and "(t', k') \<in> set (g_log s)" and "\<not> holds_lock s t'"
  shows "k' < fst (g_pc s t')"
proof -
  obtain k pos where pc: "g_pc s t' = (k, pos)" by (cases "g_pc s t'")
  from assms(1,2) pc have le: "k' \<le> k" by (rule guarded_log_leD)
  have "k' \<noteq> k"
  proof
    assume "k' = k"
    with assms(1,2) pc have "holds_lock s t'" using guarded_log_curD by blast
    with assms(3) show False by simp
  qed
  with le pc show ?thesis by simp
qed


lemma holds_lock_other:
  "g_pc s' = (g_pc s)(t := p) \<Longrightarrow> t' \<noteq> t \<Longrightarrow> holds_lock s' t' = holds_lock s t'"
  by (simp add: holds_lock_def)

lemma holds_lock_self:
  "g_pc s' = (g_pc s)(t := (k, pos)) \<Longrightarrow>
     holds_lock s' t = (pos \<in> {AtPrefix, AtBody, AtSuffix, AtRelease})"
  by (simp add: holds_lock_def)

text \<open>A step of a thread that does not hold the lock before or after, and writes nothing.\<close>

lemma guarded_idle_step:
  assumes g: "guarded s" and pc: "g_pc s t = (k, pos)"
    and idle: "pos \<in> {AtFilter, AtAcquire}" "pos' \<in> {AtFilter, AtAcquire}"
    and kn: "k \<le> kn"
    and pc': "g_pc s' = (g_pc s)(t := (kn, pos'))"
    and same: "g_log s' = g_log s" "tLock (g_handle s') = tLock (g_handle s)"
  shows "guarded s'"
proof (rule guardedI)
  from pc idle(1) have nt: "\<not> holds_lock s t" by (auto simp: holds_lock_def)
  from pc' idle(2) have nt': "\<not> holds_lock s' t" by (auto simp: holds_lock_def)
  have hl: "holds_lock s' u = holds_lock s u" for u
    using nt nt' holds_lock_other [OF pc'] by (cases "u = t") auto
  show "tLock (g_handle s') \<noteq> 0" if "holds_lock s' u" for u
    using that g hl same(2) guarded_lockD by metis
  show "u = u'" if "holds_lock s' u" "holds_lock s' u'" for u u'
    using that g hl guarded_uniqueD by metis
  show "contiguous (g_log s')"
    using g same(1) by (simp add: guarded_contiguousD)
  show "k' \<le> fst (g_pc s' u)" if "(u, k') \<in> set (g_log s')" for u k'
  proof (cases "u = t")
    case True
    with that same(1) g pc have "k' \<le> k" using guarded_log_leD by metis
    with True pc' kn show ?thesis by simp
  next
    case False
    obtain ku pu where pu: "g_pc s u = (ku, pu)" by (cases "g_pc s u")
    with that same(1) g have "k' \<le> ku" using guarded_log_leD by metis
    with False pc' pu show ?thesis by simp
  qed
  show "holds_lock s' u \<and> last (g_log s') = (u, k')"
    if "(u, k') \<in> set (g_log s')" "k' = fst (g_pc s' u)" for u k'
  proof (cases "u = t")
    case True
    from that(1) same(1) g nt True have "k' < fst (g_pc s t)"
      using guarded_log_idleD by metis
    with pc kn that(2) True pc' show ?thesis by simp
  next
    case False
    with that(2) pc' have cur: "k' = fst (g_pc s u)" by simp
    obtain ku pu where pu: "g_pc s u = (ku, pu)" by (cases "g_pc s u")
    with cur that(1) same(1) g have "holds_lock s u \<and> last (g_log s) = (u, k')"
      using guarded_log_curD by fastforce
    with hl same(1) show ?thesis by simp
  qed
qed


text \<open>A thread takes the free lock.\<close>

lemma guarded_take_lock:
  assumes g: "guarded s" and pc: "g_pc s t = (k, AtAcquire)"
    and free: "tLock (g_handle s) = 0"
    and pc': "g_pc s' = (g_pc s)(t := (k, AtPrefix))"
    and log': "g_log s' = g_log s"
    and lock': "tLock (g_handle s') \<noteq> 0"
  shows "guarded s'"
proof (rule guardedI)
  have nobody: "\<not> holds_lock s u" for u
    using g free guarded_lockD by blast
  have only: "u = t" if "holds_lock s' u" for u
    using that nobody holds_lock_other [OF pc'] by blast
  have fst_same: "fst (g_pc s' u) = fst (g_pc s u)" for u
    using pc pc' by simp
  show "tLock (g_handle s') \<noteq> 0" if "holds_lock s' u" for u
    by (rule lock')
  show "u = u'" if "holds_lock s' u" "holds_lock s' u'" for u u'
    using that only by blast
  show "contiguous (g_log s')"
    using g log' by (simp add: guarded_contiguousD)
  show "k' \<le> fst (g_pc s' u)" if "(u, k') \<in> set (g_log s')" for u k'
  proof -
    from that log' g nobody have "k' < fst (g_pc s u)"
      using guarded_log_idleD by metis
    then show ?thesis by (simp add: fst_same)
  qed
  show "holds_lock s' u \<and> last (g_log s') = (u, k')"
    if "(u, k') \<in> set (g_log s')" "k' = fst (g_pc s' u)" for u k'
  proof -
    from that(1) log' g nobody have "k' < fst (g_pc s u)"
      using guarded_log_idleD by metis
    with that(2) show ?thesis by (simp add: fst_same)
  qed
qed

text \<open>The thread that holds the lock writes to the log and keeps the lock.\<close>

lemma guarded_holder_write:
  assumes g: "guarded s" and pc: "g_pc s t = (k, pos)"
    and pos: "pos \<in> {AtPrefix, AtBody, AtSuffix, AtRelease}"
    and pos': "pos' \<in> {AtPrefix, AtBody, AtSuffix, AtRelease}"
    and pc': "g_pc s' = (g_pc s)(t := (k, pos'))"
    and log': "g_log s' = g_log s @ replicate n (t, k)"
    and lock': "tLock (g_handle s') = tLock (g_handle s)"
  shows "guarded s'"
proof (rule guardedI)
  from pc pos have ht: "holds_lock s t" by (auto simp: holds_lock_def)
  from pc' pos' have ht': "holds_lock s' t" by (auto simp: holds_lock_def)
  have hl: "holds_lock s' u = holds_lock s u" for u
    using ht ht' holds_lock_other [OF pc'] by (cases "u = t") auto
  have fst_same: "fst (g_pc s' u) = fst (g_pc s u)" for u
    using pc pc' by simp
  have last_old: "g_log s \<noteq> [] \<and> last (g_log s) = (t, k)" if "(t, k) \<in> set (g_log s)"
    using that g pc guarded_log_curD by fastforce
  show "tLock (g_handle s') \<noteq> 0" if "holds_lock s' u" for u
    using that g hl lock' guarded_lockD by metis
  show "u = u'" if "holds_lock s' u" "holds_lock s' u'" for u u'
    using that g hl guarded_uniqueD by metis
  show "contiguous (g_log s')"
  proof -
    from g have "contiguous (g_log s)" by (rule guarded_contiguousD)
    moreover from last_old
    have "(t, k) \<notin> set (g_log s) \<or> (g_log s \<noteq> [] \<and> last (g_log s) = (t, k))" by blast
    ultimately have "contiguous (g_log s @ replicate n (t, k))"
      by (rule contiguous_append_replicate)
    with log' show ?thesis by simp
  qed
  have mem: "(u, k') \<in> set (g_log s) \<or> (u, k') = (t, k)" if "(u, k') \<in> set (g_log s')" for u k'
    using that log' by (auto split: if_splits)
  show "k' \<le> fst (g_pc s' u)" if "(u, k') \<in> set (g_log s')" for u k'
  proof -
    from mem [OF that] show ?thesis
    proof
      assume old: "(u, k') \<in> set (g_log s)"
      obtain ku pu where pu: "g_pc s u = (ku, pu)" by (cases "g_pc s u")
      with old g have "k' \<le> ku" using guarded_log_leD by metis
      with pu show ?thesis by (simp add: fst_same)
    next
      assume "(u, k') = (t, k)"
      with pc show ?thesis by (simp add: fst_same)
    qed
  qed
  show "holds_lock s' u \<and> last (g_log s') = (u, k')"
    if "(u, k') \<in> set (g_log s')" "k' = fst (g_pc s' u)" for u k'
  proof (cases "u = t")
    case True
    with that(2) pc have k': "k' = k" by (simp add: fst_same)
    have "last (g_log s @ replicate n (t, k)) = (t, k)"
    proof (cases n)
      case 0
      with that(1) True k' log' have "(t, k) \<in> set (g_log s)" by simp
      with last_old 0 show ?thesis by simp
    next
      case (Suc m)
      then show ?thesis by simp
    qed
    with True k' ht' log' show ?thesis by simp
  next
    case False
    with mem [OF that(1)] have "(u, k') \<in> set (g_log s)" by auto
    with g ht False have "k' < fst (g_pc s u)" using guarded_log_otherD by metis
    with that(2) show ?thesis by (simp add: fst_same)
  qed
qed

text \<open>The thread that holds the lock releases it and goes on to its next call.\<close>

lemma guarded_give_lock:
  assumes g: "guarded s" and pc: "g_pc s t = (k, AtRelease)"
    and pc': "g_pc s' = (g_pc s)(t := (Suc k, AtFilter))"
    and log': "g_log s' = g_log s"
  shows "guarded s'"
proof (rule guardedI)
  from pc have ht: "holds_lock s t" by (simp add: holds_lock_def)
  from pc' have nt': "\<not> holds_lock s' t" by (simp add: holds_lock_def)
  have nobody: "\<not> holds_lock s' u" for u
  proof (cases "u = t")
    case True
    with nt' show ?thesis by simp
  next
    case False
    with g ht have "\<not> holds_lock s u" using guarded_uniqueD by blast
    with False holds_lock_other [OF pc'] show ?thesis by blast
  qed
  show "tLock (g_handle s') \<noteq> 0" if "holds_lock s' u" for u
    using that nobody by blast
  show "u = u'" if "holds_lock s' u" "holds_lock s' u'" for u u'
    using that nobody by blast
  show "contiguous (g_log s')"
    using g log' by (simp add: guarded_contiguousD)
  have lt: "k' < fst (g_pc s' u)" if "(u, k') \<in> set (g_log s')" for u k'
  proof (cases "u = t")
    case True
    with that log' g pc have "k' \<le> k" using guarded_log_leD by metis
    with True pc' show ?thesis by simp
  next
    case False
    with that log' g ht have "k' < fst (g_pc s u)" using guarded_log_otherD by metis
    with False pc' show ?thesis by simp
  qed
  show "k' \<le> fst (g_pc s' u)" if "(u, k') \<in> set (g_log s')" for u k'
    using lt [OF that] by simp
  show "holds_lock s' u \<and> last (g_log s') = (u, k')"
    if "(u, k') \<in> set (g_log s')" "k' = fst (g_pc s' u)" for u k'
    using lt [OF that(1)] that(2) by simp
qed

lemma try_acquire_tLock_eq: "try_acquire_tLock h e = acquire_tLock h e"
  by (cases "tLock h = 0")
    (simp_all add: try_acquire_tLock_def acquire_tLock_free acquire_tLock_held)

lemma guarded_write_part:
  assumes g: "guarded s" and pc: "g_pc s t = (k, pos)"
    and pos: "pos \<in> {AtPrefix, AtBody, AtSuffix, AtRelease}"
    and pos': "pos' \<in> {AtPrefix, AtBody, AtSuffix, AtRelease}"
  shows "guarded (write_part t k fmt va pos' s)"
proof (cases "VOID_LOG_Write (Some (g_handle s)) fmt va (g_env s)")
  case (Inl x)
  then have s': "write_part t k fmt va pos' s = s\<lparr>g_fault := Some x\<rparr>"
    by (simp add: write_part_def)
  from g show ?thesis
    unfolding s' by (simp add: guarded_def holds_lock_def)
next
  case (Inr e')
  show ?thesis
  proof (rule guarded_holder_write [OF g pc pos pos'])
    show "g_pc (write_part t k fmt va pos' s) = (g_pc s)(t := (k, pos'))"
      using Inr by (simp add: write_part_def)
    show "g_log (write_part t k fmt va pos' s) = g_log s @
        replicate (sink_invocations (trace e') - sink_invocations (trace (g_env s))) (t, k)"
      using Inr by (simp add: write_part_def)
    show "tLock (g_handle (write_part t k fmt va pos' s)) = tLock (g_handle s)"
      using Inr by (simp add: write_part_def)
  qed
qed

lemma guarded_step:
  assumes g: "guarded s"
  shows "guarded (step calls t s)"
proof -
  obtain k pos where pc: "g_pc s t = (k, pos)" by (cases "g_pc s t")
  show ?thesis
  proof (cases "g_fault s = None \<and> k < length (calls t)")
    case False
    with g pc show ?thesis by (auto simp: step_def split: option.splits)
  next
    case True
    show ?thesis
    proof (cases pos)
      case AtFilter
      show ?thesis
      proof (cases "0 = (ePriorityFilterMask (g_handle s) AND LOG_PRIORITY_of (c_name (calls t ! k)))
                        \<or> 0 = (eModulesFilterMask (g_handle s) AND c_module (calls t ! k))")
        case rejected: True
        with True pc AtFilter
        have s': "step calls t s = s\<lparr>g_pc := (g_pc s)(t := (Suc k, AtFilter))\<rparr>"
          by (simp add: step_def)
        show ?thesis
          unfolding s'
          by (rule guarded_idle_step [OF g pc, where pos' = AtFilter and kn = "Suc k"])
            (simp_all add: AtFilter)
      next
        case passed: False
        with True pc AtFilter
        have s': "step calls t s = s\<lparr>g_pc := (g_pc s)(t := (k, AtAcquire))\<rparr>"
          by (simp add: step_def)
        show ?thesis
          unfolding s'
          by (rule guarded_idle_step [OF g pc, where pos' = AtAcquire and kn = k])
            (simp_all add: AtFilter)
      qed
    next
      case AtAcquire
      show ?thesis
      proof (cases "tLock (g_handle s) = 0")
        case held: False
        with True pc AtAcquire have "step calls t s = s"
          by (simp add: step_def try_acquire_tLock_def)
        with g show ?thesis by simp
      next
        case free: True
        with True pc AtAcquire
        have s': "step calls t s =
            s\<lparr>g_handle := (g_handle s)\<lparr>tLock := 1\<rparr>,
              g_env := (g_env s)\<lparr>trace := trace (g_env s) @ [Acquire]\<rparr>,
              g_pc := (g_pc s)(t := (k, AtPrefix))\<rparr>"
          by (simp add: step_def try_acquire_tLock_def)
        show ?thesis
          unfolding s'
          by (rule guarded_take_lock [OF g pc [unfolded AtAcquire] free]) simp_all
      qed
    next
      case AtPrefix
      with True pc have "step calls t s = write_part t k (Some (prefix_format (c_name (calls t ! k))))
          [VA_Str (c_FILE (calls t ! k)), VA_Int (c_LINE (calls t ! k))] AtBody s"
        by (simp add: step_def)
      with g pc AtPrefix show ?thesis by (simp add: guarded_write_part)
    next
      case AtBody
      with True pc have "step calls t s =
          write_part t k (c_fmt (calls t ! k)) (c_args (calls t ! k)) AtSuffix s"
        by (simp add: step_def)
      with g pc AtBody show ?thesis by (simp add: guarded_write_part)
    next
      case AtSuffix
      with True pc have "step calls t s = write_part t k (Some suffix_format) [] AtRelease s"
        by (simp add: step_def)
      with g pc AtSuffix show ?thesis by (simp add: guarded_write_part)
    next
      case AtRelease
      with True pc
      have s': "step calls t s =
          s\<lparr>g_handle := fst (release_tLock (g_handle s) (g_env s)),
            g_env := snd (release_tLock (g_handle s) (g_env s)),
            g_pc := (g_pc s)(t := (Suc k, AtFilter))\<rparr>"
        by (simp add: step_def split: prod.splits)
      show ?thesis
        unfolding s'
        by (rule guarded_give_lock [OF g pc [unfolded AtRelease]]) simp_all
    qed
  qed
qed

lemma guarded_run: "guarded s \<Longrightarrow> guarded (run calls sched s)"
  by (induction sched arbitrary: s) (simp_all add: guarded_step)

section \<open>The log counts the sink invocations; a thread alone runs the macro\<close>

lemma VOID_LOG_Write_grows:
  "VOID_LOG_Write p fmt va e = Inr e' \<Longrightarrow>
     sink_invocations (trace e) \<le> sink_invocations (trace e')"
  by (auto simp: VOID_LOG_Write_def LOG_Write_def sink_invocations_def
      split: option.splits prod.splits)

lemma step_counts:
  "sink_invocations (trace (g_env (step calls t s))) + length (g_log s)
     = sink_invocations (trace (g_env s)) + length (g_log (step calls t s))"
proof -
  obtain k pos where pc: "g_pc s t = (k, pos)" by (cases "g_pc s t")
  have w: "sink_invocations (trace (g_env (write_part t k fmt va pos' s))) + length (g_log s)
     = sink_invocations (trace (g_env s)) + length (g_log (write_part t k fmt va pos' s))"
    for fmt va pos'
    using VOID_LOG_Write_grows [of "Some (g_handle s)" fmt va "g_env s"]
    by (auto simp: write_part_def split: sum.splits)
  show ?thesis
  proof (cases "g_fault s = None \<and> k < length (calls t)")
    case False
    with pc show ?thesis by (auto simp: step_def split: option.splits)
  next
    case True
    with pc w show ?thesis
      by (cases pos)
        (auto simp: step_def try_acquire_tLock_def release_tLock_def sink_invocations_def
          split: prod.splits)
  qed
qed

lemma run_counts:
  "sink_invocations (trace (g_env (run calls sched s))) + length (g_log s)
     = sink_invocations (trace (g_env s)) + length (g_log (run calls sched s))"
proof (induction sched arbitrary: s)
  case Nil
  then show ?case by simp
next
  case (Cons t ts)
  from Cons.IH [of "step calls t s"] step_counts [of calls t s]
  show ?case by simp
qed

lemma thread_alone_is_macro:
  assumes "LOG_PREFIX_BY_PRIORITY (c_FILE c) (c_LINE c) (Some h) (c_module c) (c_name c)
      (c_fmt c) (c_args c) e = Some (Inr (Some h', e'))"
  shows "g_handle (run (\<lambda>u. [c]) [t, t, t, t, t, t] (init h e)) = h' \<and>
         g_env (run (\<lambda>u. [c]) [t, t, t, t, t, t] (init h e)) = e' \<and>
         g_fault (run (\<lambda>u. [c]) [t, t, t, t, t, t] (init h e)) = None"
proof (cases "0 = (ePriorityFilterMask h AND LOG_PRIORITY_of (c_name c))
                \<or> 0 = (eModulesFilterMask h AND c_module c)")
  case True
  with assms show ?thesis
    by (auto simp: LOG_PREFIX_BY_PRIORITY_def step_def init_def)
next
  case False
  with assms obtain h1 e1 where a: "acquire_tLock h e = Some (h1, e1)"
    by (auto simp: LOG_PREFIX_BY_PRIORITY_def split: option.splits)
  with assms False obtain e2 e3 e4 where
    w1: "VOID_LOG_Write (Some h1) (Some (prefix_format (c_name c)))
           [VA_Str (c_FILE c), VA_Int (c_LINE c)] e1 = Inr e2"
    and w2: "VOID_LOG_Write (Some h1) (c_fmt c) (c_args c) e2 = Inr e3"
    and w3: "VOID_LOG_Write (Some h1) (Some suffix_format) [] e3 = Inr e4"
    and r: "release_tLock h1 e4 = (h', e')"
    by (auto simp: LOG_PREFIX_BY_PRIORITY_def split: sum.splits prod.splits)
  from False a w1 w2 w3 r show ?thesis
    by (simp add: step_def init_def write_part_def try_acquire_tLock_eq)
qed

section \<open>The claims\<close>

text \<open>
  C1. For every handle and every filtered or decorated call, in either build: when the
  message's priority has no bit in common with \<^verbatim>\<open>ePriorityFilterMask\<close>, or its module has none
  in common with \<^verbatim>\<open>eModulesFilterMask\<close>, the call returns with the handle storage and the
  environment exactly as they were. Nothing is appended to the trace, so the lock is not
  taken and the sink is not called.
\<close>

theorem filtered_out_call_is_no_op:
  "(0 = (ePriorityFilterMask h AND p) \<or> 0 = (eModulesFilterMask h AND m) \<longrightarrow>
      LOG_WRITE d (Some h) m p fmt va e = Some (Inr (Some h, e))) \<and>
   (0 = (ePriorityFilterMask h AND LOG_PRIORITY_ERROR) \<or> 0 = (eModulesFilterMask h AND m) \<longrightarrow>
      LOG_ERROR FILE LINE (Some h) m fmt va e = Some (Inr (Some h, e))) \<and>
   (0 = (ePriorityFilterMask h AND LOG_PRIORITY_WARN) \<or> 0 = (eModulesFilterMask h AND m) \<longrightarrow>
      LOG_WARN FILE LINE (Some h) m fmt va e = Some (Inr (Some h, e))) \<and>
   (0 = (ePriorityFilterMask h AND LOG_PRIORITY_INFO) \<or> 0 = (eModulesFilterMask h AND m) \<longrightarrow>
      LOG_INFO FILE LINE (Some h) m fmt va e = Some (Inr (Some h, e))) \<and>
   (0 = (ePriorityFilterMask h AND LOG_PRIORITY_DEBUG) \<or> 0 = (eModulesFilterMask h AND m) \<longrightarrow>
      LOG_DEBUG FILE LINE (Some h) m fmt va e = Some (Inr (Some h, e))) \<and>
   (0 = (ePriorityFilterMask h AND LOG_PRIORITY_TRACE) \<or> 0 = (eModulesFilterMask h AND m) \<longrightarrow>
      LOG_TRACE FILE LINE (Some h) m fmt va e = Some (Inr (Some h, e)))"
proof (intro conjI impI)
  assume "0 = (ePriorityFilterMask h AND p) \<or> 0 = (eModulesFilterMask h AND m)"
  then show "LOG_WRITE d (Some h) m p fmt va e = Some (Inr (Some h, e))"
    by (rule LOG_WRITE_rejects)
next
  assume "0 = (ePriorityFilterMask h AND LOG_PRIORITY_ERROR) \<or> 0 = (eModulesFilterMask h AND m)"
  then show "LOG_ERROR FILE LINE (Some h) m fmt va e = Some (Inr (Some h, e))"
    using LOG_PREFIX_BY_PRIORITY_rejects [of h ERROR m] by (simp add: LOG_ERROR_def)
next
  assume "0 = (ePriorityFilterMask h AND LOG_PRIORITY_WARN) \<or> 0 = (eModulesFilterMask h AND m)"
  then show "LOG_WARN FILE LINE (Some h) m fmt va e = Some (Inr (Some h, e))"
    using LOG_PREFIX_BY_PRIORITY_rejects [of h WARN m] by (simp add: LOG_WARN_def)
next
  assume "0 = (ePriorityFilterMask h AND LOG_PRIORITY_INFO) \<or> 0 = (eModulesFilterMask h AND m)"
  then show "LOG_INFO FILE LINE (Some h) m fmt va e = Some (Inr (Some h, e))"
    using LOG_PREFIX_BY_PRIORITY_rejects [of h INFO m] by (simp add: LOG_INFO_def)
next
  assume "0 = (ePriorityFilterMask h AND LOG_PRIORITY_DEBUG) \<or> 0 = (eModulesFilterMask h AND m)"
  then show "LOG_DEBUG FILE LINE (Some h) m fmt va e = Some (Inr (Some h, e))"
    using LOG_PREFIX_BY_PRIORITY_rejects [of h DEBUG m] by (simp add: LOG_DEBUG_def)
next
  assume "0 = (ePriorityFilterMask h AND LOG_PRIORITY_TRACE) \<or> 0 = (eModulesFilterMask h AND m)"
  then show "LOG_TRACE FILE LINE (Some h) m fmt va e = Some (Inr (Some h, e))"
    using LOG_PREFIX_BY_PRIORITY_rejects [of h TRACE m] by (simp add: LOG_TRACE_def)
qed

text \<open>
  C1 at a handle that accepts the paging module at the priorities Error and Warn: an Info,
  Debug or Trace message of the paging module is rejected by its priority; an Error or Warn
  message of another module (bit 1) is rejected by its module.
\<close>

theorem filtered_out_call_is_no_op_witness:
  "LOG_WRITE False (Some (sample_handle True LOG_MODULE_PAGING 3)) LOG_MODULE_PAGING
      LOG_PRIORITY_INFO (Some ''x=%d'') [VA_Int 5] start
     = Some (Inr (Some (sample_handle True LOG_MODULE_PAGING 3), start)) \<and>
   LOG_INFO ''paging.c'' 42 (Some (sample_handle True LOG_MODULE_PAGING 3)) LOG_MODULE_PAGING
      (Some ''x=%d'') [VA_Int 5] start
     = Some (Inr (Some (sample_handle True LOG_MODULE_PAGING 3), start)) \<and>
   LOG_DEBUG ''paging.c'' 42 (Some (sample_handle True LOG_MODULE_PAGING 3)) LOG_MODULE_PAGING
      (Some ''x=%d'') [VA_Int 5] start
     = Some (Inr (Some (sample_handle True LOG_MODULE_PAGING 3), start)) \<and>
   LOG_TRACE ''paging.c'' 42 (Some (sample_handle True LOG_MODULE_PAGING 3)) LOG_MODULE_PAGING
      (Some ''x=%d'') [VA_Int 5] start
     = Some (Inr (Some (sample_handle True LOG_MODULE_PAGING 3), start)) \<and>
   LOG_ERROR ''paging.c'' 42 (Some (sample_handle True LOG_MODULE_PAGING 3)) 2
      (Some ''x=%d'') [VA_Int 5] start
     = Some (Inr (Some (sample_handle True LOG_MODULE_PAGING 3), start)) \<and>
   LOG_WARN ''paging.c'' 42 (Some (sample_handle True LOG_MODULE_PAGING 3)) 2
      (Some ''x=%d'') [VA_Int 5] start
     = Some (Inr (Some (sample_handle True LOG_MODULE_PAGING 3), start)) \<and>
   sink_invocations (trace start) = 0"
  using
    filtered_out_call_is_no_op [where h = "sample_handle True LOG_MODULE_PAGING 3"
      and p = LOG_PRIORITY_INFO and m = LOG_MODULE_PAGING and d = False
      and fmt = "Some ''x=%d''" and va = "[VA_Int 5]" and e = start
      and FILE = "''paging.c''" and LINE = 42]
    filtered_out_call_is_no_op [where h = "sample_handle True LOG_MODULE_PAGING 3"
      and p = LOG_PRIORITY_INFO and m = 2 and d = False
      and fmt = "Some ''x=%d''" and va = "[VA_Int 5]" and e = start
      and FILE = "''paging.c''" and LINE = 42]
  by (simp add: sample_handle_def LOG_MODULE_PAGING_def LOG_PRIORITY_ERROR_def
      LOG_PRIORITY_WARN_def LOG_PRIORITY_INFO_def LOG_PRIORITY_DEBUG_def LOG_PRIORITY_TRACE_def
      start_def sink_invocations_def)

text \<open>
  C2, as stated, fails for a \<^verbatim>\<open>NULL\<close> format string: the message passes both masks, the lock
  is taken, prefix and suffix reach the sink, but the middle \<^verbatim>\<open>LOG_Write\<close> returns \<^verbatim>\<open>FALSE\<close>
  before it calls the sink. The sink is invoked twice, not three times.
\<close>

theorem decorated_null_format_two_sink_calls:
  "ePriorityFilterMask (sample_handle True LOG_MODULE_PAGING 3) AND LOG_PRIORITY_ERROR \<noteq> 0 \<and>
   eModulesFilterMask (sample_handle True LOG_MODULE_PAGING 3) AND LOG_MODULE_PAGING \<noteq> 0 \<and>
   LOG_ERROR ''paging.c'' 42 (Some (sample_handle True LOG_MODULE_PAGING 3)) LOG_MODULE_PAGING
      None [] start
     = Some (Inr (Some (sample_handle True LOG_MODULE_PAGING 3),
         \<lparr>world = 2,
          trace = [Acquire,
                   SinkCall (Some 7) ''(%s:%d) [ERROR] '' [VA_Str ''paging.c'', VA_Int 42],
                   SinkCall (Some 7) [CHR 0x0D, CHR 0x0A] [],
                   Release]\<rparr>)) \<and>
   sink_invocations [Acquire,
                   SinkCall (Some 7) ''(%s:%d) [ERROR] '' [VA_Str ''paging.c'', VA_Int 42],
                   SinkCall (Some 7) [CHR 0x0D, CHR 0x0A] [],
                   Release] = 2"
  by (simp add: LOG_ERROR_def LOG_PREFIX_BY_PRIORITY_def acquire_tLock_def
      LOCK_SpinlockAcquire_free VOID_LOG_Write_def LOG_Write_def release_tLock_def
      LOCK_SpinlockRelease_def prefix_format_def suffix_format_def sample_handle_def
      counting_sink_def start_def LOG_MODULE_PAGING_def LOG_PRIORITY_ERROR_def
      sink_invocations_def)

text \<open>
  C2, amended. For every decorated call (\<^verbatim>\<open>LOG_ERROR\<close>, \<^verbatim>\<open>LOG_WARN\<close>, \<^verbatim>\<open>LOG_INFO\<close>,
  \<^verbatim>\<open>LOG_DEBUG\<close>, \<^verbatim>\<open>LOG_TRACE\<close>) whose message passes both masks, on a handle with a sink
  and a free lock: with a format string that is not \<^verbatim>\<open>NULL\<close> the lock is taken, the sink is
  called exactly three times, in order with the format \<^verbatim>\<open>"(%s:%d) [<SEVERITY>] "\<close> and the
  arguments \<^verbatim>\<open>__FILE__\<close>, \<^verbatim>\<open>__LINE__\<close>, then with the caller's format and arguments, then with
  \<^verbatim>\<open>"\r\n"\<close>, and the lock is released; with a \<^verbatim>\<open>NULL\<close> format the sink is called exactly twice,
  for prefix and suffix, and the lock is released. The sink is any function: whatever it
  reports at each call, the later calls are made and the lock is released, and the handle
  ends as it began.
\<close>

theorem decorated_call_emits_prefix_body_suffix:
  assumes "ePriorityFilterMask h AND LOG_PRIORITY_of n \<noteq> 0"
    and "eModulesFilterMask h AND m \<noteq> 0"
    and "pfnLogWrite h = Some pfn"
    and "tLock h = 0"
  shows
    "decorated_macro n FILE LINE (Some h) m (Some f) va e =
      Some (Inr (Some h,
        \<lparr>world = snd (pfn (pvContext h) [CHR 0x0D, CHR 0x0A] []
                   (snd (pfn (pvContext h) f va
                     (snd (pfn (pvContext h) (''(%s:%d) ['' @ stringify n @ ''] '')
                            [VA_Str FILE, VA_Int LINE] (world e)))))),
         trace = trace e @
           [Acquire,
            SinkCall (pvContext h) (''(%s:%d) ['' @ stringify n @ ''] '')
              [VA_Str FILE, VA_Int LINE],
            SinkCall (pvContext h) f va,
            SinkCall (pvContext h) [CHR 0x0D, CHR 0x0A] [],
            Release]\<rparr>)) \<and>
     decorated_macro n FILE LINE (Some h) m None va e =
      Some (Inr (Some h,
        \<lparr>world = snd (pfn (pvContext h) [CHR 0x0D, CHR 0x0A] []
                   (snd (pfn (pvContext h) (''(%s:%d) ['' @ stringify n @ ''] '')
                          [VA_Str FILE, VA_Int LINE] (world e)))),
         trace = trace e @
           [Acquire,
            SinkCall (pvContext h) (''(%s:%d) ['' @ stringify n @ ''] '')
              [VA_Str FILE, VA_Int LINE],
            SinkCall (pvContext h) [CHR 0x0D, CHR 0x0A] [],
            Release]\<rparr>))"
  using LOG_PREFIX_BY_PRIORITY_emits [OF assms, of FILE LINE f va e]
    LOG_PREFIX_BY_PRIORITY_null_format [OF assms, of FILE LINE va e]
  by (simp add: decorated_macro_eq prefix_format_def suffix_format_def)

text \<open>
  C2, amended, on the spec's example: the handle accepts the paging module at Error and Warn,
  the sink reports failure at every call, and \<^verbatim>\<open>LOG_ERROR(h, LOG_MODULE_PAGING, "x=%d", 5)\<close>
  still reaches the sink three times and releases the lock.
\<close>

theorem decorated_call_emits_prefix_body_suffix_witness:
  "LOG_ERROR ''paging.c'' 42 (Some (sample_handle False LOG_MODULE_PAGING 3)) LOG_MODULE_PAGING
      (Some ''x=%d'') [VA_Int 5] start
     = Some (Inr (Some (sample_handle False LOG_MODULE_PAGING 3),
         \<lparr>world = 3,
          trace = [Acquire,
                   SinkCall (Some 7) ''(%s:%d) [ERROR] '' [VA_Str ''paging.c'', VA_Int 42],
                   SinkCall (Some 7) ''x=%d'' [VA_Int 5],
                   SinkCall (Some 7) [CHR 0x0D, CHR 0x0A] [],
                   Release]\<rparr>)) \<and>
   tLock (sample_handle False LOG_MODULE_PAGING 3) = 0"
  using decorated_call_emits_prefix_body_suffix [where h = "sample_handle False LOG_MODULE_PAGING 3"
      and n = ERROR and m = LOG_MODULE_PAGING and pfn = "counting_sink False"
      and FILE = "''paging.c''" and LINE = 42 and f = "''x=%d''" and va = "[VA_Int 5]"
      and e = start]
  by (simp add: sample_handle_def counting_sink_def start_def LOG_MODULE_PAGING_def
      LOG_PRIORITY_ERROR_def)

text \<open>
  C3, as stated, fails for the decorated macros: \<^verbatim>\<open>__LOG_PREFIX_BY_PRIORITY\<close> and the five
  macros built on it are defined outside the \<^verbatim>\<open>#ifndef __INTEL_HEADERS_DISABLE_LOG__\<close>, so in
  a build with the flag defined \<^verbatim>\<open>LOG_ERROR\<close> on a handle that accepts everything still calls
  the sink three times.
\<close>

theorem disable_flag_keeps_decorated_calls:
  "run_operation True (Decorated ERROR) ''paging.c'' 42
      (Some (sample_handle True LOG_MODULE_ALL LOG_PRIORITY_ALL)) LOG_MODULE_PAGING
      (Some ''x=%d'') [VA_Int 5] start
     = Some (Inr (Some (sample_handle True LOG_MODULE_ALL LOG_PRIORITY_ALL),
         \<lparr>world = 3,
          trace = [Acquire,
                   SinkCall (Some 7) ''(%s:%d) [ERROR] '' [VA_Str ''paging.c'', VA_Int 42],
                   SinkCall (Some 7) ''x=%d'' [VA_Int 5],
                   SinkCall (Some 7) [CHR 0x0D, CHR 0x0A] [],
                   Release]\<rparr>)) \<and>
   sink_invocations [Acquire,
                   SinkCall (Some 7) ''(%s:%d) [ERROR] '' [VA_Str ''paging.c'', VA_Int 42],
                   SinkCall (Some 7) ''x=%d'' [VA_Int 5],
                   SinkCall (Some 7) [CHR 0x0D, CHR 0x0A] [],
                   Release] = 3"
  by (simp add: run_operation_def LOG_ERROR_def LOG_PREFIX_BY_PRIORITY_def acquire_tLock_def
      LOCK_SpinlockAcquire_free VOID_LOG_Write_def LOG_Write_def release_tLock_def
      LOCK_SpinlockRelease_def prefix_format_def suffix_format_def sample_handle_def
      counting_sink_def start_def LOG_MODULE_PAGING_def LOG_PRIORITY_ERROR_def
      LOG_MODULE_ALL_def LOG_PRIORITY_ALL_def UINT32_MAX_def sink_invocations_def)

text \<open>
  C3, amended. With \<^verbatim>\<open>__INTEL_HEADERS_DISABLE_LOG__\<close> defined, \<^verbatim>\<open>LOG_WRITE\<close> expands to nothing:
  for every handle pointer (\<^verbatim>\<open>NULL\<close> too), module, priority, format and filter configuration
  the handle storage and the environment are unchanged, so the sink is invoked zero times.
  The decorated macros and the function \<^verbatim>\<open>LOG_Write\<close> do not depend on the flag: a decorated
  call is the expansion of \<^verbatim>\<open>__LOG_PREFIX_BY_PRIORITY\<close> in both builds, and the raw write
  remains callable with the result it has without the flag.
\<close>

theorem disable_flag_removes_LOG_WRITE_only:
  "LOG_WRITE True ptLog m p fmt va e = Some (Inr (ptLog, e)) \<and>
   run_operation True (Filtered p) FILE LINE ptLog m fmt va e = Some (Inr (ptLog, e)) \<and>
   run_operation True (Decorated n) FILE LINE ptLog m fmt va e =
     LOG_PREFIX_BY_PRIORITY FILE LINE ptLog m n fmt va e \<and>
   run_operation True (Decorated n) FILE LINE ptLog m fmt va e =
     run_operation False (Decorated n) FILE LINE ptLog m fmt va e \<and>
   run_operation True Raw FILE LINE ptLog m fmt va e =
     run_operation False Raw FILE LINE ptLog m fmt va e \<and>
   run_operation True Raw FILE LINE ptLog m fmt va e =
     (case LOG_Write ptLog fmt va e of
        Inl x \<Rightarrow> Some (Inl x)
      | Inr (bSuccess, e') \<Rightarrow> Some (Inr (ptLog, e')))"
  by (simp add: LOG_WRITE_def run_operation_def decorated_macro_eq VOID_LOG_Write_def
      split: sum.splits prod.splits)

text \<open>
  C3, amended, on a handle that accepts everything, in a build with the flag defined:
  \<^verbatim>\<open>LOG_WRITE\<close> leaves the trace empty, while the raw write reaches the sink once.
\<close>

theorem disable_flag_removes_LOG_WRITE_only_witness:
  "LOG_WRITE True (Some (sample_handle True LOG_MODULE_ALL LOG_PRIORITY_ALL)) LOG_MODULE_PAGING
      LOG_PRIORITY_ERROR (Some ''x=%d'') [VA_Int 5] start
     = Some (Inr (Some (sample_handle True LOG_MODULE_ALL LOG_PRIORITY_ALL), start)) \<and>
   sink_invocations (trace start) = 0 \<and>
   run_operation True Raw ''paging.c'' 42
      (Some (sample_handle True LOG_MODULE_ALL LOG_PRIORITY_ALL)) LOG_MODULE_PAGING
      (Some ''x=%d'') [VA_Int 5] start
     = Some (Inr (Some (sample_handle True LOG_MODULE_ALL LOG_PRIORITY_ALL),
         \<lparr>world = 1, trace = [SinkCall (Some 7) ''x=%d'' [VA_Int 5]]\<rparr>))"
proof -
  note flag = disable_flag_removes_LOG_WRITE_only [where
      ptLog = "Some (sample_handle True LOG_MODULE_ALL LOG_PRIORITY_ALL)"
      and m = LOG_MODULE_PAGING and p = LOG_PRIORITY_ERROR and fmt = "Some ''x=%d''"
      and va = "[VA_Int 5]" and e = start and FILE = "''paging.c''" and LINE = 42 and n = ERROR]
  from flag have filtered:
    "LOG_WRITE True (Some (sample_handle True LOG_MODULE_ALL LOG_PRIORITY_ALL)) LOG_MODULE_PAGING
      LOG_PRIORITY_ERROR (Some ''x=%d'') [VA_Int 5] start
     = Some (Inr (Some (sample_handle True LOG_MODULE_ALL LOG_PRIORITY_ALL), start))"
    by (rule conjunct1)
  from flag have raw:
    "run_operation True Raw ''paging.c'' 42
      (Some (sample_handle True LOG_MODULE_ALL LOG_PRIORITY_ALL)) LOG_MODULE_PAGING
      (Some ''x=%d'') [VA_Int 5] start =
     (case LOG_Write (Some (sample_handle True LOG_MODULE_ALL LOG_PRIORITY_ALL))
             (Some ''x=%d'') [VA_Int 5] start of
        Inl x \<Rightarrow> Some (Inl x)
      | Inr (bSuccess, e') \<Rightarrow>
          Some (Inr (Some (sample_handle True LOG_MODULE_ALL LOG_PRIORITY_ALL), e')))"
    by blast
  have "sink_invocations (trace start) = 0"
    by (simp add: start_def sink_invocations_def)
  moreover have "LOG_Write (Some (sample_handle True LOG_MODULE_ALL LOG_PRIORITY_ALL))
             (Some ''x=%d'') [VA_Int 5] start
     = Inr (True, \<lparr>world = 1, trace = [SinkCall (Some 7) ''x=%d'' [VA_Int 5]]\<rparr>)"
    by (simp add: LOG_Write_def sample_handle_def counting_sink_def start_def)
  ultimately show ?thesis
    using filtered raw by simp
qed

text \<open>
  C6, as stated, fails for a \<^verbatim>\<open>NULL\<close> format string in a build without the disable flag: the
  message passes both masks, the lock is taken and released, but \<^verbatim>\<open>LOG_Write\<close> returns
  \<^verbatim>\<open>FALSE\<close> before it calls the sink. The sink is invoked zero times, not once.
\<close>

theorem LOG_WRITE_null_format_no_sink_call:
  "ePriorityFilterMask (sample_handle True LOG_MODULE_PAGING 3) AND LOG_PRIORITY_ERROR \<noteq> 0 \<and>
   eModulesFilterMask (sample_handle True LOG_MODULE_PAGING 3) AND LOG_MODULE_PAGING \<noteq> 0 \<and>
   LOG_WRITE False (Some (sample_handle True LOG_MODULE_PAGING 3)) LOG_MODULE_PAGING
      LOG_PRIORITY_ERROR None [] start
     = Some (Inr (Some (sample_handle True LOG_MODULE_PAGING 3),
         \<lparr>world = 0, trace = [Acquire, Release]\<rparr>)) \<and>
   sink_invocations [Acquire, Release] = 0"
  by (simp add: LOG_WRITE_def acquire_tLock_def LOCK_SpinlockAcquire_free VOID_LOG_Write_def
      LOG_Write_def release_tLock_def LOCK_SpinlockRelease_def sample_handle_def
      start_def LOG_MODULE_PAGING_def LOG_PRIORITY_ERROR_def sink_invocations_def)

text \<open>
  C6, amended. In a build without the disable flag, for every call of \<^verbatim>\<open>LOG_WRITE\<close> whose
  message passes both masks, on a handle with a sink and a free lock: with a format string
  that is not \<^verbatim>\<open>NULL\<close> the lock is taken once, the sink is called exactly once, with the
  handle's context and the caller's format and arguments only, and the lock is released;
  with a \<^verbatim>\<open>NULL\<close> format the lock is taken and released and the sink is not called. The
  handle ends as it began.
\<close>

theorem LOG_WRITE_emits_body_only:
  assumes "ePriorityFilterMask h AND p \<noteq> 0"
    and "eModulesFilterMask h AND m \<noteq> 0"
    and "pfnLogWrite h = Some pfn"
    and "tLock h = 0"
  shows
    "LOG_WRITE False (Some h) m p (Some f) va e =
      Some (Inr (Some h,
        \<lparr>world = snd (pfn (pvContext h) f va (world e)),
         trace = trace e @ [Acquire, SinkCall (pvContext h) f va, Release]\<rparr>)) \<and>
     LOG_WRITE False (Some h) m p None va e =
      Some (Inr (Some h, e\<lparr>trace := trace e @ [Acquire, Release]\<rparr>))"
  using LOG_WRITE_emits [OF assms, of f va e] LOG_WRITE_null_format [OF assms(1,2,4), of va e]
  by simp

text \<open>
  C6, amended, on the handle that accepts the paging module at Error and Warn, with a sink
  that reports failure: one sink call between taking and releasing the lock.
\<close>

theorem LOG_WRITE_emits_body_only_witness:
  "LOG_WRITE False (Some (sample_handle False LOG_MODULE_PAGING 3)) LOG_MODULE_PAGING
      LOG_PRIORITY_WARN (Some ''x=%d'') [VA_Int 5] start
     = Some (Inr (Some (sample_handle False LOG_MODULE_PAGING 3),
         \<lparr>world = 1,
          trace = [Acquire, SinkCall (Some 7) ''x=%d'' [VA_Int 5], Release]\<rparr>)) \<and>
   sink_invocations [Acquire, SinkCall (Some 7) ''x=%d'' [VA_Int 5], Release] = 1"
  using LOG_WRITE_emits_body_only [where h = "sample_handle False LOG_MODULE_PAGING 3"
      and p = LOG_PRIORITY_WARN and m = LOG_MODULE_PAGING and pfn = "counting_sink False"
      and f = "''x=%d''" and va = "[VA_Int 5]" and e = start]
  by (simp add: sample_handle_def counting_sink_def start_def LOG_MODULE_PAGING_def
      LOG_PRIORITY_WARN_def sink_invocations_def)

text \<open>
  C4. \<^verbatim>\<open>LOG_InitHandle\<close> returns \<^verbatim>\<open>FALSE\<close> exactly when the handle pointer or the sink is
  \<^verbatim>\<open>NULL\<close>, and then the storage behind the pointer is what it was. Otherwise it returns
  \<^verbatim>\<open>TRUE\<close> and the storage holds the given sink, context (any, \<^verbatim>\<open>NULL\<close> too) and masks (any,
  zero too) and the lock value 0, whatever it held before.
\<close>

theorem LOG_InitHandle_contract:
  "(fst (LOG_InitHandle ptLog pfn ctx eModules ePriority) = FALSE) = (ptLog = None \<or> pfn = None) \<and>
   LOG_InitHandle None pfn ctx eModules ePriority = (FALSE, None) \<and>
   LOG_InitHandle (Some h) None ctx eModules ePriority = (FALSE, Some h) \<and>
   LOG_InitHandle (Some h) (Some f) ctx eModules ePriority =
     (TRUE, Some \<lparr>pfnLogWrite = Some f, pvContext = ctx, ePriorityFilterMask = ePriority,
                  eModulesFilterMask = eModules, tLock = 0\<rparr>)"
  by (cases ptLog) (simp_all add: LOG_InitHandle_def)

text \<open>
  C4 on storage that held another sink, a context, other masks and a taken lock: with a
  \<^verbatim>\<open>NULL\<close> sink it is left alone; with a sink, a \<^verbatim>\<open>NULL\<close> context and zero masks it is
  overwritten and the lock is free.
\<close>

theorem LOG_InitHandle_contract_witness:
  "LOG_InitHandle (Some ((sample_handle True 1 3)\<lparr>tLock := 5\<rparr>)) None None 0 0
     = (FALSE, Some ((sample_handle True 1 3)\<lparr>tLock := 5\<rparr>)) \<and>
   LOG_InitHandle (Some ((sample_handle True 1 3)\<lparr>tLock := 5\<rparr>))
       (Some (counting_sink False)) None 0 0
     = (TRUE, Some \<lparr>pfnLogWrite = Some (counting_sink False), pvContext = None,
                  ePriorityFilterMask = 0, eModulesFilterMask = 0, tLock = 0\<rparr>)"
  using LOG_InitHandle_contract [where h = "(sample_handle True 1 3)\<lparr>tLock := 5\<rparr>"
      and f = "counting_sink False" and ctx = None and eModules = 0 and ePriority = 0
      and ptLog = None and pfn = None]
  by blast

text \<open>
  C5, as stated, fails for a handle whose stored sink is \<^verbatim>\<open>NULL\<close>: handle and format are not
  \<^verbatim>\<open>NULL\<close>, so \<^verbatim>\<open>LOG_Write\<close> passes its two tests and calls through the \<^verbatim>\<open>NULL\<close> function
  pointer. No sink is invoked and no success indicator is returned.
\<close>

theorem LOG_Write_null_sink_no_result:
  "pfnLogWrite ((sample_handle False LOG_MODULE_PAGING 3)\<lparr>pfnLogWrite := None\<rparr>) = None \<and>
   LOG_Write (Some ((sample_handle False LOG_MODULE_PAGING 3)\<lparr>pfnLogWrite := None\<rparr>))
      (Some ''x=%d'') [VA_Int 5] start = Inl NullFunctionCall"
  by (simp add: LOG_Write_def)

text \<open>
  C5, amended. \<^verbatim>\<open>LOG_Write\<close> with a \<^verbatim>\<open>NULL\<close> handle or a \<^verbatim>\<open>NULL\<close> format returns \<^verbatim>\<open>FALSE\<close> and
  leaves the environment as it was: no sink call. With a handle whose stored sink is not
  \<^verbatim>\<open>NULL\<close>, and a format, it calls the sink exactly once, with the handle's stored context,
  the given format and the argument list, and returns what the sink reported. The handle's
  masks and lock are arbitrary here and no lock call is recorded: nothing is filtered and
  nothing is locked. With a handle whose stored sink is \<^verbatim>\<open>NULL\<close>, and a format, the call goes
  through the \<^verbatim>\<open>NULL\<close> function pointer.
\<close>

theorem LOG_Write_contract:
  "LOG_Write None fmt va e = Inr (FALSE, e) \<and>
   LOG_Write ptLog None va e = Inr (FALSE, e) \<and>
   (pfnLogWrite h = Some pfn \<longrightarrow>
      LOG_Write (Some h) (Some f) va e =
        Inr (fst (pfn (pvContext h) f va (world e)),
             \<lparr>world = snd (pfn (pvContext h) f va (world e)),
              trace = trace e @ [SinkCall (pvContext h) f va]\<rparr>)) \<and>
   (pfnLogWrite h = None \<longrightarrow> LOG_Write (Some h) (Some f) va e = Inl NullFunctionCall)"
  by (simp add: LOG_Write_def split: option.splits prod.splits)

text \<open>
  C5, amended, on a handle whose masks are zero and whose lock is taken, with a sink that
  reports failure: the sink is still called once and its \<^verbatim>\<open>FALSE\<close> is returned.
\<close>

theorem LOG_Write_contract_witness:
  "LOG_Write (Some ((sample_handle False 0 0)\<lparr>tLock := 1\<rparr>)) (Some ''x=%d'') [VA_Int 5] start
     = Inr (FALSE, \<lparr>world = 1, trace = [SinkCall (Some 7) ''x=%d'' [VA_Int 5]]\<rparr>) \<and>
   LOG_Write (Some ((sample_handle True 0 0)\<lparr>tLock := 1\<rparr>)) (Some ''x=%d'') [VA_Int 5] start
     = Inr (TRUE, \<lparr>world = 1, trace = [SinkCall (Some 7) ''x=%d'' [VA_Int 5]]\<rparr>)"
  using LOG_Write_contract [where h = "(sample_handle False 0 0)\<lparr>tLock := 1\<rparr>"
      and pfn = "counting_sink False" and f = "''x=%d''" and va = "[VA_Int 5]" and e = start
      and fmt = None and ptLog = None]
    LOG_Write_contract [where h = "(sample_handle True 0 0)\<lparr>tLock := 1\<rparr>"
      and pfn = "counting_sink True" and f = "''x=%d''" and va = "[VA_Int 5]" and e = start
      and fmt = None and ptLog = None]
  by (simp add: sample_handle_def counting_sink_def start_def)

text \<open>
  C9. \<^verbatim>\<open>LOG_Write\<close> tests the handle pointer and the format pointer only. For every handle
  whose \<^verbatim>\<open>pfnLogWrite\<close> is \<^verbatim>\<open>NULL\<close> and every format that is not \<^verbatim>\<open>NULL\<close> it does not return
  \<^verbatim>\<open>FALSE\<close>: it goes on to the call through the \<^verbatim>\<open>NULL\<close> function pointer.
\<close>

theorem LOG_Write_calls_through_null_sink:
  "pfnLogWrite h = None \<Longrightarrow>
     LOG_Write (Some h) (Some f) va e = Inl NullFunctionCall \<and>
     LOG_Write (Some h) (Some f) va e \<noteq> Inr (FALSE, e)"
  by (simp add: LOG_Write_def)

text \<open>C9 on a handle as \<^verbatim>\<open>LOG_InitHandle\<close> would never leave it: all fields set but the sink.\<close>

theorem LOG_Write_calls_through_null_sink_witness:
  "LOG_Write (Some ((sample_handle True LOG_MODULE_ALL LOG_PRIORITY_ALL)\<lparr>pfnLogWrite := None\<rparr>))
      (Some ''x=%d'') [VA_Int 5] start = Inl NullFunctionCall"
  using LOG_Write_calls_through_null_sink [where
      h = "(sample_handle True LOG_MODULE_ALL LOG_PRIORITY_ALL)\<lparr>pfnLogWrite := None\<rparr>"
      and f = "''x=%d''" and va = "[VA_Int 5]" and e = start]
  by simp

text \<open>
  C7. The five priorities are the single bits 0 to 4, the paging module is bit 0, and both
  \<^verbatim>\<open>ALL\<close> sentinels have all 32 bits set; two different priorities share no bit. So on a handle
  whose priority mask is Error|Trace the priority check fails exactly for Warn, Info and
  Debug: those decorated calls do nothing, for every module value and module mask, while an
  Error or Trace call whose module passes the module mask (on a handle with a sink and a
  free lock) reaches the sink three times.
\<close>

theorem priority_masks_are_independent_bits:
  assumes "ePriorityFilterMask h = LOG_PRIORITY_ERROR OR LOG_PRIORITY_TRACE"
  shows
    "LOG_PRIORITY_ERROR = 1 \<and> LOG_PRIORITY_WARN = 2 \<and> LOG_PRIORITY_INFO = 4 \<and>
     LOG_PRIORITY_DEBUG = 8 \<and> LOG_PRIORITY_TRACE = 16 \<and> LOG_MODULE_PAGING = 1 \<and>
     LOG_PRIORITY_ALL = 4294967295 \<and> LOG_MODULE_ALL = 4294967295 \<and>
     LOG_PRIORITY_ALL AND x = x \<and> LOG_MODULE_ALL AND x = x \<and>
     (n \<noteq> n' \<longrightarrow> LOG_PRIORITY_of n AND LOG_PRIORITY_of n' = 0) \<and>
     (0 = (ePriorityFilterMask h AND LOG_PRIORITY_of n)) = (n = WARN \<or> n = INFO \<or> n = DEBUG) \<and>
     (n = WARN \<or> n = INFO \<or> n = DEBUG \<longrightarrow>
        decorated_macro n FILE LINE (Some h) m fmt va e = Some (Inr (Some h, e))) \<and>
     ((n = ERROR \<or> n = TRACE) \<and> eModulesFilterMask h AND m \<noteq> 0 \<and>
      pfnLogWrite h = Some pfn \<and> tLock h = 0 \<longrightarrow>
        (\<exists>e'. decorated_macro n FILE LINE (Some h) m (Some f) va e = Some (Inr (Some h, e')) \<and>
              sink_invocations (trace e') = sink_invocations (trace e) + 3))"
proof -
  have bits: "LOG_PRIORITY_ERROR = 1" "LOG_PRIORITY_WARN = 2" "LOG_PRIORITY_INFO = 4"
    "LOG_PRIORITY_DEBUG = 8" "LOG_PRIORITY_TRACE = 16" "LOG_MODULE_PAGING = 1"
    "LOG_PRIORITY_ALL = 4294967295" "LOG_MODULE_ALL = 4294967295"
    by (simp_all add: LOG_PRIORITY_ERROR_def LOG_PRIORITY_WARN_def LOG_PRIORITY_INFO_def
        LOG_PRIORITY_DEBUG_def LOG_PRIORITY_TRACE_def LOG_MODULE_PAGING_def
        LOG_PRIORITY_ALL_def LOG_MODULE_ALL_def UINT32_MAX_def)
  have full: "(4294967295 :: 32 word) AND x = x"
  proof -
    have "(4294967295 :: 32 word) = - 1" by simp
    then show ?thesis by (simp only: and.left_neutral)
  qed
  have disjoint: "n \<noteq> n' \<longrightarrow> LOG_PRIORITY_of n AND LOG_PRIORITY_of n' = 0"
    by (cases n; cases n') (simp_all add: bits)
  have mask: "(0 = (ePriorityFilterMask h AND LOG_PRIORITY_of n)) = (n = WARN \<or> n = INFO \<or> n = DEBUG)"
    by (cases n) (simp_all add: assms bits)
  have reject: "n = WARN \<or> n = INFO \<or> n = DEBUG \<longrightarrow>
      decorated_macro n FILE LINE (Some h) m fmt va e = Some (Inr (Some h, e))"
    using mask LOG_PREFIX_BY_PRIORITY_rejects [of h n m FILE LINE fmt va e]
    by (auto simp: decorated_macro_eq)
  have accept: "(n = ERROR \<or> n = TRACE) \<and> eModulesFilterMask h AND m \<noteq> 0 \<and>
      pfnLogWrite h = Some pfn \<and> tLock h = 0 \<longrightarrow>
        (\<exists>e'. decorated_macro n FILE LINE (Some h) m (Some f) va e = Some (Inr (Some h, e')) \<and>
              sink_invocations (trace e') = sink_invocations (trace e) + 3)"
  proof (intro impI, elim conjE)
    assume n: "n = ERROR \<or> n = TRACE" and m: "eModulesFilterMask h AND m \<noteq> 0"
      and pfn: "pfnLogWrite h = Some pfn" and free: "tLock h = 0"
    from n mask have p: "ePriorityFilterMask h AND LOG_PRIORITY_of n \<noteq> 0"
      by auto
    show "\<exists>e'. decorated_macro n FILE LINE (Some h) m (Some f) va e = Some (Inr (Some h, e')) \<and>
              sink_invocations (trace e') = sink_invocations (trace e) + 3"
      using LOG_PREFIX_BY_PRIORITY_emits [OF p m pfn free, of FILE LINE f va e]
      by (simp add: decorated_macro_eq sink_invocations_def)
  qed
  show ?thesis
    using bits full disjoint mask reject accept by simp
qed

text \<open>
  C7 on a handle that accepts every module at Error|Trace (mask 17): a Warn call of the
  paging module does nothing, a Trace call of the paging module reaches the sink three
  times.
\<close>

theorem priority_masks_are_independent_bits_witness:
  "LOG_WARN ''paging.c'' 42 (Some (sample_handle True LOG_MODULE_ALL 17)) LOG_MODULE_PAGING
      (Some ''x=%d'') [VA_Int 5] start
     = Some (Inr (Some (sample_handle True LOG_MODULE_ALL 17), start)) \<and>
   (\<exists>e'. LOG_TRACE ''paging.c'' 42 (Some (sample_handle True LOG_MODULE_ALL 17))
            LOG_MODULE_PAGING (Some ''x=%d'') [VA_Int 5] start
           = Some (Inr (Some (sample_handle True LOG_MODULE_ALL 17), e')) \<and>
         sink_invocations (trace e') = 3)"
proof -
  have mask: "ePriorityFilterMask (sample_handle True LOG_MODULE_ALL 17)
      = LOG_PRIORITY_ERROR OR LOG_PRIORITY_TRACE"
    by (simp add: sample_handle_def LOG_PRIORITY_ERROR_def LOG_PRIORITY_TRACE_def)
  have pre: "eModulesFilterMask (sample_handle True LOG_MODULE_ALL 17) AND LOG_MODULE_PAGING \<noteq> 0"
    "pfnLogWrite (sample_handle True LOG_MODULE_ALL 17) = Some (counting_sink True)"
    "tLock (sample_handle True LOG_MODULE_ALL 17) = 0"
    "sink_invocations (trace start) = 0"
    by (simp_all add: sample_handle_def LOG_MODULE_ALL_def UINT32_MAX_def LOG_MODULE_PAGING_def
        start_def sink_invocations_def)
  from priority_masks_are_independent_bits [OF mask, where n = WARN and FILE = "''paging.c''"
      and LINE = 42 and m = LOG_MODULE_PAGING and fmt = "Some ''x=%d''" and va = "[VA_Int 5]"
      and e = start and x = 0 and n' = WARN and pfn = "counting_sink True" and f = "''x=%d''"]
  have warn: "LOG_WARN ''paging.c'' 42 (Some (sample_handle True LOG_MODULE_ALL 17))
      LOG_MODULE_PAGING (Some ''x=%d'') [VA_Int 5] start
     = Some (Inr (Some (sample_handle True LOG_MODULE_ALL 17), start))"
    unfolding decorated_macro.simps by blast
  from priority_masks_are_independent_bits [OF mask, where n = TRACE and FILE = "''paging.c''"
      and LINE = 42 and m = LOG_MODULE_PAGING and f = "''x=%d''" and va = "[VA_Int 5]"
      and e = start and pfn = "counting_sink True" and x = 0 and n' = TRACE
      and fmt = "Some ''x=%d''"] pre(1-3)
  have "\<exists>e'. LOG_TRACE ''paging.c'' 42 (Some (sample_handle True LOG_MODULE_ALL 17))
            LOG_MODULE_PAGING (Some ''x=%d'') [VA_Int 5] start
           = Some (Inr (Some (sample_handle True LOG_MODULE_ALL 17), e')) \<and>
         sink_invocations (trace e') = sink_invocations (trace start) + 3"
    unfolding decorated_macro.simps by blast
  then have tr: "\<exists>e'. LOG_TRACE ''paging.c'' 42 (Some (sample_handle True LOG_MODULE_ALL 17))
            LOG_MODULE_PAGING (Some ''x=%d'') [VA_Int 5] start
           = Some (Inr (Some (sample_handle True LOG_MODULE_ALL 17), e')) \<and>
         sink_invocations (trace e') = 3"
    using pre(4) by simp
  from warn tr show ?thesis by blast
qed

text \<open>
  C10. Every logging operation that returns, the raw \<^verbatim>\<open>LOG_Write\<close>, the filtered \<^verbatim>\<open>LOG_WRITE\<close>
  and each decorated macro, in either build, returns with the handle storage equal to what
  it was on entry: sink, context and both masks are unchanged and the lock has its entry
  value again. On a handle with a sink and a free lock every operation does return.
  \<^verbatim>\<open>LOG_InitHandle\<close> is the operation that writes the handle's fields.
\<close>

theorem logging_leaves_handle_unchanged:
  "(run_operation d op FILE LINE (Some h) m fmt va e = Some (Inr (p', e')) \<longrightarrow> p' = Some h) \<and>
   (pfnLogWrite h \<noteq> None \<and> tLock h = 0 \<longrightarrow>
      (\<exists>e''. run_operation d op FILE LINE (Some h) m fmt va e = Some (Inr (Some h, e'')))) \<and>
   snd (LOG_InitHandle (Some h) (Some pfn) ctx eModules ePriority) =
     Some \<lparr>pfnLogWrite = Some pfn, pvContext = ctx, ePriorityFilterMask = ePriority,
           eModulesFilterMask = eModules, tLock = 0\<rparr>"
proof (intro conjI impI)
  assume "run_operation d op FILE LINE (Some h) m fmt va e = Some (Inr (p', e'))"
  then show "p' = Some h" by (rule run_operation_handle)
next
  assume "pfnLogWrite h \<noteq> None \<and> tLock h = 0"
  then show "\<exists>e''. run_operation d op FILE LINE (Some h) m fmt va e = Some (Inr (Some h, e''))"
    using run_operation_returns [of h d op FILE LINE m fmt va e] by simp
next
  show "snd (LOG_InitHandle (Some h) (Some pfn) ctx eModules ePriority) =
     Some \<lparr>pfnLogWrite = Some pfn, pvContext = ctx, ePriorityFilterMask = ePriority,
           eModulesFilterMask = eModules, tLock = 0\<rparr>"
    by (simp add: LOG_InitHandle_def)
qed

text \<open>
  C10 on the handle that accepts the paging module at Error and Warn: a raw write, a
  filtered Error write and a decorated Error call of the paging module each return with the
  same handle, lock free again, while \<^verbatim>\<open>LOG_InitHandle\<close> with a \<^verbatim>\<open>NULL\<close> context and zero masks
  leaves a different one.
\<close>

theorem logging_leaves_handle_unchanged_witness:
  "(\<exists>e''. run_operation False Raw ''paging.c'' 42
          (Some (sample_handle True LOG_MODULE_PAGING 3)) LOG_MODULE_PAGING
          (Some ''x=%d'') [VA_Int 5] start
        = Some (Inr (Some (sample_handle True LOG_MODULE_PAGING 3), e''))) \<and>
   (\<exists>e''. run_operation False (Filtered LOG_PRIORITY_ERROR) ''paging.c'' 42
          (Some (sample_handle True LOG_MODULE_PAGING 3)) LOG_MODULE_PAGING
          (Some ''x=%d'') [VA_Int 5] start
        = Some (Inr (Some (sample_handle True LOG_MODULE_PAGING 3), e''))) \<and>
   (\<exists>e''. run_operation False (Decorated ERROR) ''paging.c'' 42
          (Some (sample_handle True LOG_MODULE_PAGING 3)) LOG_MODULE_PAGING
          (Some ''x=%d'') [VA_Int 5] start
        = Some (Inr (Some (sample_handle True LOG_MODULE_PAGING 3), e''))) \<and>
   snd (LOG_InitHandle (Some (sample_handle True LOG_MODULE_PAGING 3))
          (Some (counting_sink True)) None 0 0)
     \<noteq> Some (sample_handle True LOG_MODULE_PAGING 3)"
proof -
  have usable: "pfnLogWrite (sample_handle True LOG_MODULE_PAGING 3) \<noteq> None \<and>
      tLock (sample_handle True LOG_MODULE_PAGING 3) = 0"
    by (simp add: sample_handle_def)
  note frame = logging_leaves_handle_unchanged [where d = False
      and FILE = "''paging.c''" and LINE = 42 and h = "sample_handle True LOG_MODULE_PAGING 3"
      and m = LOG_MODULE_PAGING and fmt = "Some ''x=%d''" and va = "[VA_Int 5]" and e = start
      and pfn = "counting_sink True" and ctx = None and eModules = 0 and ePriority = 0]
  have "snd (LOG_InitHandle (Some (sample_handle True LOG_MODULE_PAGING 3))
          (Some (counting_sink True)) None 0 0)
     \<noteq> Some (sample_handle True LOG_MODULE_PAGING 3)"
    using frame [where op = Raw and p' = None and e' = start]
    by (simp add: sample_handle_def)
  then show ?thesis
    using usable frame [where op = Raw and p' = None and e' = start]
      frame [where op = "Filtered LOG_PRIORITY_ERROR" and p' = None and e' = start]
      frame [where op = "Decorated ERROR" and p' = None and e' = start]
    by blast
qed

text \<open>
  C8. Any number of threads make decorated calls on one handle, and their steps (filter
  test, one attempt to take the lock, each of the three \<^verbatim>\<open>LOG_Write\<close> calls, the release)
  are interleaved in any order, each step complete before the next. Then, whatever the
  schedule, the calls and the handle: in the order of the sink's invocations the parts of
  one message stand next to each other, so no part of another message stands between two
  parts of one message; at most one thread is between taking and releasing the lock; and
  the log has one entry for every sink invocation made.
\<close>

theorem concurrent_decorated_messages_are_contiguous:
  "contiguous (g_log (run calls sched (init h e))) \<and>
   never_interleaved (g_log (run calls sched (init h e))) \<and>
   (\<forall>t t'. holds_lock (run calls sched (init h e)) t \<and>
            holds_lock (run calls sched (init h e)) t' \<longrightarrow> t = t') \<and>
   sink_invocations (trace (g_env (run calls sched (init h e))))
     = sink_invocations (trace e) + length (g_log (run calls sched (init h e)))"
proof -
  have g: "guarded (run calls sched (init h e))"
    by (rule guarded_run) (rule guarded_init)
  then have c: "contiguous (g_log (run calls sched (init h e)))"
    by (rule guarded_contiguousD)
  then have n: "never_interleaved (g_log (run calls sched (init h e)))"
    by (rule contiguous_never_interleaved)
  from g have u: "\<forall>t t'. holds_lock (run calls sched (init h e)) t \<and>
            holds_lock (run calls sched (init h e)) t' \<longrightarrow> t = t'"
    using guarded_uniqueD by blast
  from run_counts [of calls sched "init h e"]
  have k: "sink_invocations (trace (g_env (run calls sched (init h e))))
     = sink_invocations (trace e) + length (g_log (run calls sched (init h e)))"
    by (simp add: init_def)
  from c n u k show ?thesis by blast
qed

text \<open>
  C8 on two threads that each make one Error call of the paging module on the handle that
  accepts it, under contention: thread 0 passes the filter and takes the lock; thread 1
  passes the filter and finds the lock held; thread 0 writes prefix and body; thread 1 finds
  the lock held again; thread 0 writes the suffix and releases; thread 1 takes the lock,
  writes its three parts and releases. The sink sees the three parts of thread 0, then the
  three parts of thread 1. A log with a part of thread 1 between two parts of thread 0 is
  not contiguous.
\<close>

theorem concurrent_decorated_messages_are_contiguous_witness:
  "g_log (run two_threads [0, 0, 1, 1, 0, 0, 1, 0, 0, 1, 1, 1, 1, 1]
              (init (sample_handle True LOG_MODULE_PAGING 3) start))
     = [(0, 0), (0, 0), (0, 0), (1, 0), (1, 0), (1, 0)] \<and>
   contiguous (g_log (run two_threads [0, 0, 1, 1, 0, 0, 1, 0, 0, 1, 1, 1, 1, 1]
              (init (sample_handle True LOG_MODULE_PAGING 3) start))) \<and>
   never_interleaved (g_log (run two_threads [0, 0, 1, 1, 0, 0, 1, 0, 0, 1, 1, 1, 1, 1]
              (init (sample_handle True LOG_MODULE_PAGING 3) start))) \<and>
   \<not> contiguous [(0 :: nat, 0 :: nat), (1, 0), (0, 0)]"
proof -
  note safe = concurrent_decorated_messages_are_contiguous [where calls = two_threads
      and sched = "[0, 0, 1, 1, 0, 0, 1, 0, 0, 1, 1, 1, 1, 1]"
      and h = "sample_handle True LOG_MODULE_PAGING 3" and e = start]
  from safe have c: "contiguous (g_log (run two_threads [0, 0, 1, 1, 0, 0, 1, 0, 0, 1, 1, 1, 1, 1]
              (init (sample_handle True LOG_MODULE_PAGING 3) start)))"
    by (rule conjunct1)
  from safe have n: "never_interleaved (g_log (run two_threads
              [0, 0, 1, 1, 0, 0, 1, 0, 0, 1, 1, 1, 1, 1]
              (init (sample_handle True LOG_MODULE_PAGING 3) start)))"
    by blast
  have l: "g_log (run two_threads [0, 0, 1, 1, 0, 0, 1, 0, 0, 1, 1, 1, 1, 1]
              (init (sample_handle True LOG_MODULE_PAGING 3) start))
     = [(0, 0), (0, 0), (0, 0), (1, 0), (1, 0), (1, 0)]"
    by code_simp
  have x: "\<not> contiguous [(0 :: nat, 0 :: nat), (1, 0), (0, 0)]"
    by simp
  from l c n x show ?thesis by blast
qed

end
